theory Spec2Isabelle
  imports Main
begin

section \<open>The data model of database.js\<close>

text \<open>
  The tables of the schema \<open>todo\<close>, as \<open>init\<close> creates them. A row is a record, a
  table the list of its rows in insertion order. Identifiers are \<open>BIGINT UNSIGNED\<close>
  columns and are modelled as natural numbers; a nullable column is an \<open>option\<close>.
  Instants (\<open>DATETIME\<close>, \<open>Date.now()\<close>, \<open>NOW()\<close>) are integers on one common time line.
  Column widths (\<open>VARCHAR(255)\<close>) and the collation of the storage engine are not
  modelled: strings are compared with equality.
\<close>

type_synonym ident = nat
type_synonym instant = int
type_synonym token = string

datatype role = Owner | Write | Read

datatype item_state = InProgress | Complete | Canceled

record user_row =
  u_id :: ident
  u_firstName :: "string option"
  u_lastName :: "string option"
  u_username :: string
  u_password :: string
  u_salt :: string

record session_row =
  s_id :: ident
  s_userId :: ident
  s_expirationDate :: instant

record list_row =
  l_id :: ident
  l_name :: string

record item_row =
  i_id :: ident
  i_listId :: ident
  i_name :: string
  i_description :: "string option"
  i_state :: item_state

record permission_row =
  p_id :: ident
  p_userId :: "ident option"
  p_listId :: ident
  p_role :: role

text \<open>
  The database: the five tables and, for each, the next \<open>AUTO_INCREMENT\<close> value.
  A counter only grows; it advances when a row is inserted.
\<close>

record db =
  todo_users :: "user_row list"
  todo_sessions :: "session_row list"
  todo_lists :: "list_row list"
  todo_items :: "item_row list"
  todo_permissions :: "permission_row list"
  users_auto :: ident
  sessions_auto :: ident
  lists_auto :: ident
  items_auto :: ident
  permissions_auto :: ident

text \<open>The state after \<open>init\<close> on a fresh server: every table exists and is empty.\<close>

definition init :: db where
  "init = \<lparr>todo_users = [], todo_sessions = [], todo_lists = [], todo_items = [],
           todo_permissions = [], users_auto = 1, sessions_auto = 1, lists_auto = 1,
           items_auto = 1, permissions_auto = 1\<rparr>"

section \<open>Errors and replies\<close>

text \<open>
  \<open>ClientError\<close> (errors.js) with its fields; the \<open>headers\<close> field is empty at every
  throw of server.js and is left out. The constructor's default status is 400.
\<close>

record client_error =
  status :: nat
  code :: string
  message :: string
  data :: "string option"

datatype sql_error =
  ER_DUP_ENTRY | ER_NO_REFERENCED_ROW_2 | ER_BAD_NULL_ERROR | ER_PARSE_ERROR | StorageFailure

text \<open>
  What a handler can throw: a \<open>ClientError\<close>, an error of the storage driver, a plain
  \<open>Error\<close> with its message, and the failures of \<open>authenticate\<close> and \<open>checkPermissions\<close>.
\<close>

datatype error =
  Unauthorized
  | InvalidCredentials
  | Denied
  | ClientError client_error
  | SqlError sql_error
  | Error string

text \<open>The \<open>id, name, description, state\<close> columns that \<open>GET /list/:listId/item/:itemId\<close> selects.\<close>

record item_view =
  v_id :: ident
  v_name :: string
  v_description :: "string option"
  v_state :: item_state

text \<open>What a handler returns to \<open>route\<close>: nothing, or an object.\<close>

datatype reply =
  Undefined
  | UserCreated ident token instant
  | TokenIssued token instant
  | ListCreated ident
  | ItemCreated ident
  | ItemFound item_view

type_synonym outcome = "(error + reply) \<times> db"

section \<open>Configuration and the cryptographic collaborators\<close>

text \<open>
  config.js and crypto.js are collaborators of server.js: the token lifetime, \<open>encrypt\<close>,
  its inverse and \<open>hashPassword\<close> are parameters of the model. \<open>getSalt\<close> draws a random
  value, which a request that needs one carries as an input.
\<close>

record env =
  tokenLifetime :: int
  encrypt :: "ident \<Rightarrow> token"
  decrypt :: "token \<Rightarrow> ident option"
  hashPassword :: "string \<Rightarrow> string \<Rightarrow> string"

section \<open>The SQL statements\<close>

text \<open>
  Each statement of server.js and database.js is one function on the database. A
  \<open>DELETE\<close> or \<open>UPDATE\<close> returns \<open>affectedRows\<close> (the rows its \<open>WHERE\<close> matches) with the
  new state; an \<open>INSERT\<close> returns \<open>insertId\<close>, or the error of the constraint it violates.
  Deleting a user or a list cascades along the foreign keys of the schema.
\<close>

definition user_ids :: "db \<Rightarrow> ident set" where
  "user_ids d = set (map u_id (todo_users d))"

definition list_ids :: "db \<Rightarrow> ident set" where
  "list_ids d = set (map l_id (todo_lists d))"

text \<open>\<open>INSERT INTO todo.users SET ?\<close>, under \<open>UNIQUE(username)\<close>.\<close>

definition insert_user ::
  "string option \<Rightarrow> string option \<Rightarrow> string \<Rightarrow> string \<Rightarrow> string \<Rightarrow> db \<Rightarrow> sql_error + (ident \<times> db)" where
  "insert_user fn ln un pw sl d =
     (if un \<in> set (map u_username (todo_users d)) then Inl ER_DUP_ENTRY
      else Inr (users_auto d,
        d\<lparr>todo_users := todo_users d @
             [\<lparr>u_id = users_auto d, u_firstName = fn, u_lastName = ln, u_username = un,
               u_password = pw, u_salt = sl\<rparr>],
          users_auto := Suc (users_auto d)\<rparr>))"

text \<open>
  \<open>INSERT INTO todo.sessions(userId, expirationDate) VALUES (?, ?)\<close>: \<open>userId\<close> is
  \<open>NOT NULL\<close> and references \<open>todo.users(id)\<close>.
\<close>

definition insert_session :: "ident option \<Rightarrow> instant \<Rightarrow> db \<Rightarrow> sql_error + (ident \<times> db)" where
  "insert_session uid expireTime d =
     (case uid of
        None \<Rightarrow> Inl ER_BAD_NULL_ERROR
      | Some u \<Rightarrow>
          if u \<notin> user_ids d then Inl ER_NO_REFERENCED_ROW_2
          else Inr (sessions_auto d,
            d\<lparr>todo_sessions := todo_sessions d @
                 [\<lparr>s_id = sessions_auto d, s_userId = u, s_expirationDate = expireTime\<rparr>],
              sessions_auto := Suc (sessions_auto d)\<rparr>))"

text \<open>
  \<open>UPDATE todo.users SET ? WHERE id = ?\<close>. The body holds the fields to set; an empty
  body leaves \<open>SET\<close> without an assignment, which the server rejects as a syntax error.
  A \<open>NULL\<close> parameter matches no row.
\<close>

record user_patch =
  up_firstName :: "string option"
  up_lastName :: "string option"
  up_password :: "string option"
  up_salt :: "string option"

definition set_field :: "'a option \<Rightarrow> 'a \<Rightarrow> 'a" where
  "set_field new old = (case new of None \<Rightarrow> old | Some v \<Rightarrow> v)"

definition set_nullable :: "'a option \<Rightarrow> 'a option \<Rightarrow> 'a option" where
  "set_nullable new old = (case new of None \<Rightarrow> old | Some v \<Rightarrow> Some v)"

definition user_patch_keys :: "user_patch \<Rightarrow> nat" where
  "user_patch_keys b =
     (if up_firstName b = None then 0 else 1) + (if up_lastName b = None then 0 else 1) +
     (if up_password b = None then 0 else 1) + (if up_salt b = None then 0 else 1)"

definition apply_user_patch :: "user_patch \<Rightarrow> user_row \<Rightarrow> user_row" where
  "apply_user_patch b u =
     u\<lparr>u_firstName := set_nullable (up_firstName b) (u_firstName u),
       u_lastName := set_nullable (up_lastName b) (u_lastName u),
       u_password := set_field (up_password b) (u_password u),
       u_salt := set_field (up_salt b) (u_salt u)\<rparr>"

definition update_user :: "user_patch \<Rightarrow> ident option \<Rightarrow> db \<Rightarrow> sql_error + (nat \<times> db)" where
  "update_user b uid d =
     (if user_patch_keys b = 0 then Inl ER_PARSE_ERROR
      else Inr (length (filter (\<lambda>u. Some (u_id u) = uid) (todo_users d)),
        d\<lparr>todo_users :=
             map (\<lambda>u. if Some (u_id u) = uid then apply_user_patch b u else u) (todo_users d)\<rparr>))"

text \<open>
  \<open>DELETE FROM todo.users WHERE id = ?\<close>; the sessions and the permissions of the user
  go with it (\<open>ON DELETE CASCADE\<close>).
\<close>

definition delete_user_row :: "ident option \<Rightarrow> db \<Rightarrow> nat \<times> db" where
  "delete_user_row uid d =
     (let gone = map u_id (filter (\<lambda>u. Some (u_id u) = uid) (todo_users d)) in
      (length gone,
       d\<lparr>todo_users := filter (\<lambda>u. Some (u_id u) \<noteq> uid) (todo_users d),
         todo_sessions := filter (\<lambda>s. s_userId s \<notin> set gone) (todo_sessions d),
         todo_permissions :=
           filter (\<lambda>p. case p_userId p of None \<Rightarrow> True | Some u \<Rightarrow> u \<notin> set gone)
             (todo_permissions d)\<rparr>))"

text \<open>\<open>DELETE FROM todo.sessions WHERE id = ?\<close>.\<close>

definition delete_session :: "ident \<Rightarrow> db \<Rightarrow> nat \<times> db" where
  "delete_session sid d =
     (length (filter (\<lambda>s. s_id s = sid) (todo_sessions d)),
      d\<lparr>todo_sessions := filter (\<lambda>s. s_id s \<noteq> sid) (todo_sessions d)\<rparr>)"

text \<open>\<open>INSERT INTO todo.lists SET ?\<close> with the body \<open>{name}\<close>.\<close>

definition insert_list :: "string \<Rightarrow> db \<Rightarrow> ident \<times> db" where
  "insert_list nm d =
     (lists_auto d,
      d\<lparr>todo_lists := todo_lists d @ [\<lparr>l_id = lists_auto d, l_name = nm\<rparr>],
        lists_auto := Suc (lists_auto d)\<rparr>)"

text \<open>\<open>UPDATE todo.lists SET ? WHERE id = ?\<close> with the body \<open>{name?}\<close>.\<close>

definition update_list :: "string option \<Rightarrow> ident \<Rightarrow> db \<Rightarrow> sql_error + (nat \<times> db)" where
  "update_list nm lid d =
     (if nm = None then Inl ER_PARSE_ERROR
      else Inr (length (filter (\<lambda>l. l_id l = lid) (todo_lists d)),
        d\<lparr>todo_lists :=
             map (\<lambda>l. if l_id l = lid then l\<lparr>l_name := set_field nm (l_name l)\<rparr> else l)
               (todo_lists d)\<rparr>))"

text \<open>
  Deleting the lists that satisfy a condition; their items and permissions go with them
  (\<open>ON DELETE CASCADE\<close> of \<open>todo.items\<close> and \<open>todo.permissions\<close>).
\<close>

definition delete_lists_where :: "(list_row \<Rightarrow> bool) \<Rightarrow> db \<Rightarrow> nat \<times> db" where
  "delete_lists_where c d =
     (let gone = map l_id (filter c (todo_lists d)) in
      (length gone,
       d\<lparr>todo_lists := filter (\<lambda>l. \<not> c l) (todo_lists d),
         todo_items := filter (\<lambda>i. i_listId i \<notin> set gone) (todo_items d),
         todo_permissions := filter (\<lambda>p. p_listId p \<notin> set gone) (todo_permissions d)\<rparr>))"

text \<open>\<open>DELETE FROM todo.lists WHERE id = ?\<close>.\<close>

definition delete_list_row :: "ident \<Rightarrow> db \<Rightarrow> nat \<times> db" where
  "delete_list_row lid d = delete_lists_where (\<lambda>l. l_id l = lid) d"

text \<open>
  \<open>INSERT INTO todo.permissions(userId, listId, role) VALUES (?, ?, 'owner')\<close>. The key
  \<open>UNIQUE(userId, listId)\<close> compares only rows whose \<open>userId\<close> is not \<open>NULL\<close>, and a
  \<open>NULL\<close> \<open>userId\<close> references no user.
\<close>

definition insert_permission :: "ident option \<Rightarrow> ident \<Rightarrow> role \<Rightarrow> db \<Rightarrow> sql_error + db" where
  "insert_permission uid lid r d =
     (if uid \<noteq> None \<and> (\<exists>p \<in> set (todo_permissions d). p_userId p = uid \<and> p_listId p = lid)
      then Inl ER_DUP_ENTRY
      else if (case uid of None \<Rightarrow> False | Some u \<Rightarrow> u \<notin> user_ids d) \<or> lid \<notin> list_ids d
      then Inl ER_NO_REFERENCED_ROW_2
      else Inr (d\<lparr>todo_permissions := todo_permissions d @
                    [\<lparr>p_id = permissions_auto d, p_userId = uid, p_listId = lid, p_role = r\<rparr>],
                  permissions_auto := Suc (permissions_auto d)\<rparr>))"

text \<open>
  \<open>INSERT INTO todo.permissions(userId, listId, role) VALUES (?, ?, ?)
  ON DUPLICATE KEY UPDATE role = VALUES(role)\<close>, with the \<open>userId\<close> of the request path.
\<close>

definition upsert_permission :: "ident \<Rightarrow> ident \<Rightarrow> role \<Rightarrow> db \<Rightarrow> sql_error + db" where
  "upsert_permission uid lid r d =
     (if \<exists>p \<in> set (todo_permissions d). p_userId p = Some uid \<and> p_listId p = lid
      then Inr (d\<lparr>todo_permissions :=
                    map (\<lambda>p. if p_userId p = Some uid \<and> p_listId p = lid then p\<lparr>p_role := r\<rparr> else p)
                      (todo_permissions d)\<rparr>)
      else insert_permission (Some uid) lid r d)"

text \<open>\<open>DELETE FROM todo.permissions WHERE userId = ? AND listId = ?\<close>.\<close>

definition delete_permission :: "ident \<Rightarrow> ident \<Rightarrow> db \<Rightarrow> nat \<times> db" where
  "delete_permission uid lid d =
     (length (filter (\<lambda>p. p_userId p = Some uid \<and> p_listId p = lid) (todo_permissions d)),
      d\<lparr>todo_permissions :=
          filter (\<lambda>p. \<not> (p_userId p = Some uid \<and> p_listId p = lid)) (todo_permissions d)\<rparr>)"

text \<open>
  \<open>INSERT INTO todo.items SET ?\<close> with the body \<open>{name, description?, state?, listId}\<close>;
  the state defaults to \<open>'in-progress'\<close> and \<open>listId\<close> references \<open>todo.lists(id)\<close>.
\<close>

definition insert_item ::
  "string \<Rightarrow> string option \<Rightarrow> item_state option \<Rightarrow> ident \<Rightarrow> db \<Rightarrow> sql_error + (ident \<times> db)" where
  "insert_item nm ds st lid d =
     (if lid \<notin> list_ids d then Inl ER_NO_REFERENCED_ROW_2
      else Inr (items_auto d,
        d\<lparr>todo_items := todo_items d @
             [\<lparr>i_id = items_auto d, i_listId = lid, i_name = nm, i_description = ds,
               i_state = (case st of None \<Rightarrow> InProgress | Some s \<Rightarrow> s)\<rparr>],
          items_auto := Suc (items_auto d)\<rparr>))"

text \<open>\<open>SELECT id, name, description, state FROM todo.items WHERE listId = ? AND id = ?\<close>.\<close>

definition view_of :: "item_row \<Rightarrow> item_view" where
  "view_of i = \<lparr>v_id = i_id i, v_name = i_name i, v_description = i_description i, v_state = i_state i\<rparr>"

definition select_item :: "ident \<Rightarrow> ident \<Rightarrow> db \<Rightarrow> item_view list" where
  "select_item lid iid d =
     map view_of (filter (\<lambda>i. i_listId i = lid \<and> i_id i = iid) (todo_items d))"

text \<open>\<open>UPDATE todo.items SET ? WHERE listId = ? AND id = ?\<close> with the body \<open>{name?, description?, state?}\<close>.\<close>

record item_patch =
  ip_name :: "string option"
  ip_description :: "string option"
  ip_state :: "item_state option"

definition item_patch_keys :: "item_patch \<Rightarrow> nat" where
  "item_patch_keys b =
     (if ip_name b = None then 0 else 1) + (if ip_description b = None then 0 else 1) +
     (if ip_state b = None then 0 else 1)"

definition apply_item_patch :: "item_patch \<Rightarrow> item_row \<Rightarrow> item_row" where
  "apply_item_patch b i =
     i\<lparr>i_name := set_field (ip_name b) (i_name i),
       i_description := set_nullable (ip_description b) (i_description i),
       i_state := set_field (ip_state b) (i_state i)\<rparr>"

definition update_item :: "item_patch \<Rightarrow> ident \<Rightarrow> ident \<Rightarrow> db \<Rightarrow> sql_error + (nat \<times> db)" where
  "update_item b lid iid d =
     (if item_patch_keys b = 0 then Inl ER_PARSE_ERROR
      else Inr (length (filter (\<lambda>i. i_listId i = lid \<and> i_id i = iid) (todo_items d)),
        d\<lparr>todo_items :=
             map (\<lambda>i. if i_listId i = lid \<and> i_id i = iid then apply_item_patch b i else i)
               (todo_items d)\<rparr>))"

text \<open>\<open>DELETE FROM todo.items WHERE listId = ? AND id = ?\<close>.\<close>

definition delete_item :: "ident \<Rightarrow> ident \<Rightarrow> db \<Rightarrow> nat \<times> db" where
  "delete_item lid iid d =
     (length (filter (\<lambda>i. i_listId i = lid \<and> i_id i = iid) (todo_items d)),
      d\<lparr>todo_items := filter (\<lambda>i. \<not> (i_listId i = lid \<and> i_id i = iid)) (todo_items d)\<rparr>)"

text \<open>The two statements of \<open>purge\<close>:
  \<open>DELETE FROM todo.sessions WHERE expirationDate < NOW()\<close> and
  \<open>DELETE FROM todo.lists WHERE id NOT IN (SELECT DISTINCT listId FROM todo.permissions)\<close>.\<close>

definition delete_expired_sessions :: "instant \<Rightarrow> db \<Rightarrow> nat \<times> db" where
  "delete_expired_sessions now d =
     (length (filter (\<lambda>s. s_expirationDate s < now) (todo_sessions d)),
      d\<lparr>todo_sessions := filter (\<lambda>s. \<not> s_expirationDate s < now) (todo_sessions d)\<rparr>)"

definition delete_orphaned_lists :: "db \<Rightarrow> nat \<times> db" where
  "delete_orphaned_lists d =
     delete_lists_where (\<lambda>l. l_id l \<notin> set (map p_listId (todo_permissions d))) d"

section \<open>Authentication and the permission check\<close>

text \<open>
  What a request carries for \<open>authenticate\<close>: a bearer token, and for the login a
  username with a password.
\<close>

record request =
  bearer :: "token option"
  login :: "(string \<times> string) option"

datatype policy = Required | Optional | Credentials

record identity =
  a_userId :: "ident option"
  a_sessionId :: "ident option"

text \<open>
  Modelled from the spec: \<open>authenticate\<close> of util.js, which server.js imports and calls as
  \<open>authenticate(req, db)\<close>, \<open>authenticate(req, db, false)\<close> and
  \<open>authenticate(req, db, 'credentials')\<close>; its code is not among the sources. The spec
  (4.5): the token is opened to a session id, the session is resolved by id, and a
  session whose expiration instant is not after the current time is refused; without a
  token the required mode fails and the optional mode gives the anonymous identity; the
  credentials mode looks the user up by username and verifies the password.
\<close>

definition resolve :: "db \<Rightarrow> ident \<Rightarrow> session_row option" where
  "resolve d sid = find (\<lambda>s. s_id s = sid) (todo_sessions d)"

definition authenticate_token :: "env \<Rightarrow> instant \<Rightarrow> db \<Rightarrow> token \<Rightarrow> error + identity" where
  "authenticate_token env now d t =
     (case decrypt env t of
        None \<Rightarrow> Inl Unauthorized
      | Some sid \<Rightarrow>
          (case resolve d sid of
             None \<Rightarrow> Inl Unauthorized
           | Some s \<Rightarrow>
               if s_expirationDate s \<le> now then Inl Unauthorized
               else Inr \<lparr>a_userId = Some (s_userId s), a_sessionId = Some sid\<rparr>))"

fun authenticate :: "env \<Rightarrow> instant \<Rightarrow> request \<Rightarrow> db \<Rightarrow> policy \<Rightarrow> error + identity" where
  "authenticate env now req d Required =
     (case bearer req of
        None \<Rightarrow> Inl Unauthorized
      | Some t \<Rightarrow> authenticate_token env now d t)"
| "authenticate env now req d Optional =
     (case bearer req of
        None \<Rightarrow> Inr \<lparr>a_userId = None, a_sessionId = None\<rparr>
      | Some t \<Rightarrow> authenticate_token env now d t)"
| "authenticate env now req d Credentials =
     (case login req of
        None \<Rightarrow> Inl InvalidCredentials
      | Some (un, pw) \<Rightarrow>
          (case find (\<lambda>u. u_username u = un) (todo_users d) of
             None \<Rightarrow> Inl InvalidCredentials
           | Some u \<Rightarrow>
               if hashPassword env pw (u_salt u) = u_password u
               then Inr \<lparr>a_userId = Some (u_id u), a_sessionId = None\<rparr>
               else Inl InvalidCredentials))"

text \<open>
  Modelled from the spec: \<open>checkPermissions\<close> of util.js, called by server.js as
  \<open>checkPermissions(req, db, userId, listId, role)\<close>; its code is not among the sources.
  The spec (4.4, \<open>requireAtLeast\<close>): the row for (userId, listId) is looked up, with
  \<open>userId IS NULL\<close> as a key of its own; without a row, or with a role strictly below
  the required one in the order owner > write > read, the result is Denied; otherwise
  it is the role held.
\<close>

fun role_rank :: "role \<Rightarrow> nat" where
  "role_rank Owner = 3"
| "role_rank Write = 2"
| "role_rank Read = 1"

definition lookup_permission :: "db \<Rightarrow> ident option \<Rightarrow> ident \<Rightarrow> permission_row option" where
  "lookup_permission d uid lid =
     find (\<lambda>p. p_userId p = uid \<and> p_listId p = lid) (todo_permissions d)"

definition checkPermissions :: "db \<Rightarrow> ident option \<Rightarrow> ident \<Rightarrow> role \<Rightarrow> error + role" where
  "checkPermissions d uid lid minRole =
     (case lookup_permission d uid lid of
        None \<Rightarrow> Inl Denied
      | Some p \<Rightarrow>
          if role_rank (p_role p) < role_rank minRole then Inl Denied
          else Inr (p_role p))"

section \<open>The request handlers of server.js\<close>

text \<open>
  A handler is a function from the database to an outcome: what it returns or throws,
  and the database it leaves. Every statement commits on its own, so a handler that
  throws keeps the writes it made before. \<open>awaiting\<close> is \<open>await\<close> on a call that may throw:
  the error leaves the handler with the database as it is. The body of a request comes
  as the result of \<open>jsonValidate\<close> (validation.js, a collaborator): the validated body,
  or the error the validation throws. Path parameters are identifiers.
\<close>

definition awaiting :: "error + 'a \<Rightarrow> db \<Rightarrow> ('a \<Rightarrow> outcome) \<Rightarrow> outcome" where
  "awaiting r d k = (case r of Inl e \<Rightarrow> (Inl e, d) | Inr x \<Rightarrow> k x)"

definition quoted :: "string \<Rightarrow> string" where
  "quoted s = [CHR 0x27] @ s @ [CHR 0x27]"

subsection \<open>Users and sessions\<close>

record signup_body =
  sb_firstName :: "string option"
  sb_lastName :: "string option"
  sb_username :: string
  sb_password :: string

text \<open>\<open>POST /user\<close>.\<close>

definition post_user :: "env \<Rightarrow> instant \<Rightarrow> error + signup_body \<Rightarrow> string \<Rightarrow> db \<Rightarrow> outcome" where
  "post_user env now vbody salt d =
     awaiting vbody d (\<lambda>body.
       let hash = hashPassword env (sb_password body) salt in
       (case insert_user (sb_firstName body) (sb_lastName body) (sb_username body) hash salt d of
          Inl err \<Rightarrow>
            if err = ER_DUP_ENTRY
            then (Inl (ClientError \<lparr>status = 409, code = ''username-taken'',
                    message = ''Username already in use.'', data = Some (sb_username body)\<rparr>), d)
            else (Inl (SqlError err), d)
        | Inr (userId, d1) \<Rightarrow>
            let expireTime = now + tokenLifetime env in
            (case insert_session (Some userId) expireTime d1 of
               Inl err \<Rightarrow> (Inl (SqlError err), d1)
             | Inr (sessionId, d2) \<Rightarrow>
                 (Inr (UserCreated userId (encrypt env sessionId) expireTime), d2))))"

record user_body =
  ub_firstName :: "string option"
  ub_lastName :: "string option"
  ub_password :: "string option"

definition user_body_keys :: "user_body \<Rightarrow> nat" where
  "user_body_keys b =
     (if ub_firstName b = None then 0 else 1) + (if ub_lastName b = None then 0 else 1) +
     (if ub_password b = None then 0 else 1)"

text \<open>\<open>PUT /user\<close>.\<close>

definition put_user :: "env \<Rightarrow> instant \<Rightarrow> request \<Rightarrow> error + user_body \<Rightarrow> string \<Rightarrow> db \<Rightarrow> outcome" where
  "put_user env now req vbody salt d =
     awaiting (authenticate env now req d Required) d (\<lambda>who.
     awaiting vbody d (\<lambda>body.
       if user_body_keys body = 0 then (Inr Undefined, d)
       else
         let patch = \<lparr>up_firstName = ub_firstName body, up_lastName = ub_lastName body,
               up_password = map_option (\<lambda>pw. hashPassword env pw salt) (ub_password body),
               up_salt = map_option (\<lambda>pw. salt) (ub_password body)\<rparr>
         in (case update_user patch (a_userId who) d of
               Inl err \<Rightarrow> (Inl (SqlError err), d)
             | Inr (affectedRows, d1) \<Rightarrow>
                 if affectedRows = 0 then (Inl (Error ''Unexpected missing user''), d1)
                 else (Inr Undefined, d1))))"

text \<open>\<open>DELETE /user\<close>.\<close>

definition delete_user :: "env \<Rightarrow> instant \<Rightarrow> request \<Rightarrow> db \<Rightarrow> outcome" where
  "delete_user env now req d =
     awaiting (authenticate env now req d Required) d (\<lambda>who.
       (case delete_user_row (a_userId who) d of
          (affectedRows, d1) \<Rightarrow>
            if affectedRows = 0 then (Inl (Error ''Unexpected missing user''), d1)
            else (Inr Undefined, d1)))"

text \<open>\<open>POST /user/login\<close>.\<close>

definition post_user_login :: "env \<Rightarrow> instant \<Rightarrow> request \<Rightarrow> db \<Rightarrow> outcome" where
  "post_user_login env now req d =
     awaiting (authenticate env now req d Credentials) d (\<lambda>who.
       let expireTime = now + tokenLifetime env in
       (case insert_session (a_userId who) expireTime d of
          Inl err \<Rightarrow> (Inl (SqlError err), d)
        | Inr (sessionId, d1) \<Rightarrow> (Inr (TokenIssued (encrypt env sessionId) expireTime), d1)))"

text \<open>\<open>POST /user/logout\<close>.\<close>

definition post_user_logout :: "env \<Rightarrow> instant \<Rightarrow> request \<Rightarrow> db \<Rightarrow> outcome" where
  "post_user_logout env now req d =
     awaiting (authenticate env now req d Optional) d (\<lambda>who.
       (case a_sessionId who of
          None \<Rightarrow> (Inr Undefined, d)
        | Some sessionId \<Rightarrow> (Inr Undefined, snd (delete_session sessionId d))))"

subsection \<open>Lists\<close>

text \<open>\<open>POST /list\<close>.\<close>

definition post_list :: "env \<Rightarrow> instant \<Rightarrow> request \<Rightarrow> error + string \<Rightarrow> db \<Rightarrow> outcome" where
  "post_list env now req vbody d =
     awaiting (authenticate env now req d Optional) d (\<lambda>who.
     awaiting vbody d (\<lambda>name.
       (case insert_list name d of
          (listId, d1) \<Rightarrow>
            (case insert_permission (a_userId who) listId Owner d1 of
               Inl err \<Rightarrow> (Inl (SqlError err), d1)
             | Inr d2 \<Rightarrow> (Inr (ListCreated listId), d2)))))"

text \<open>\<open>PUT /list/:listId\<close>; the body is \<open>{name?}\<close>.\<close>

definition put_list ::
  "env \<Rightarrow> instant \<Rightarrow> request \<Rightarrow> ident \<Rightarrow> error + string option \<Rightarrow> db \<Rightarrow> outcome" where
  "put_list env now req listId vbody d =
     awaiting (authenticate env now req d Optional) d (\<lambda>who.
     awaiting (checkPermissions d (a_userId who) listId Write) d (\<lambda>_.
     awaiting vbody d (\<lambda>name.
       if name = None then (Inr Undefined, d)
       else
         (case update_list name listId d of
            Inl err \<Rightarrow> (Inl (SqlError err), d)
          | Inr (affectedRows, d1) \<Rightarrow>
              if affectedRows = 0 then (Inl (Error ''Unexpected missing list''), d1)
              else (Inr Undefined, d1)))))"

text \<open>\<open>DELETE /list/:listId\<close>.\<close>

definition delete_list :: "env \<Rightarrow> instant \<Rightarrow> request \<Rightarrow> ident \<Rightarrow> db \<Rightarrow> outcome" where
  "delete_list env now req listId d =
     awaiting (authenticate env now req d Optional) d (\<lambda>who.
     awaiting (checkPermissions d (a_userId who) listId Owner) d (\<lambda>_.
       (case delete_list_row listId d of
          (affectedRows, d1) \<Rightarrow>
            if affectedRows = 0 then (Inl (Error ''Unexpected missing list''), d1)
            else (Inr Undefined, d1))))"

subsection \<open>The users of a list\<close>

text \<open>The test \<open>['owner', 'write', 'read'].includes(body.role)\<close> and the role it lets through.\<close>

definition role_of :: "string \<Rightarrow> role option" where
  "role_of s =
     (if s = ''owner'' then Some Owner
      else if s = ''write'' then Some Write
      else if s = ''read'' then Some Read
      else None)"

text \<open>\<open>PUT /list/:listId/user/:userId\<close>; the body is \<open>{role}\<close>.\<close>

definition put_list_user ::
  "env \<Rightarrow> instant \<Rightarrow> request \<Rightarrow> ident \<Rightarrow> ident \<Rightarrow> error + string \<Rightarrow> db \<Rightarrow> outcome" where
  "put_list_user env now req listId targetUserId vbody d =
     awaiting (authenticate env now req d Required) d (\<lambda>who.
     awaiting (checkPermissions d (a_userId who) listId Owner) d (\<lambda>_.
     awaiting vbody d (\<lambda>role.
       (case role_of role of
          None \<Rightarrow>
            (Inl (ClientError \<lparr>status = 400, code = ''invalid-role'',
               message = ''Unknown role '' @ quoted role @ ''.'', data = None\<rparr>), d)
        | Some r \<Rightarrow>
            (case upsert_permission targetUserId listId r d of
               Inl err \<Rightarrow> (Inl (SqlError err), d)
             | Inr d1 \<Rightarrow> (Inr Undefined, d1))))))"

text \<open>\<open>DELETE /list/:listId/user/:userId\<close>.\<close>

definition delete_list_user :: "env \<Rightarrow> instant \<Rightarrow> request \<Rightarrow> ident \<Rightarrow> ident \<Rightarrow> db \<Rightarrow> outcome" where
  "delete_list_user env now req listId targetUserId d =
     awaiting (authenticate env now req d Optional) d (\<lambda>who.
     awaiting (checkPermissions d (a_userId who) listId Owner) d (\<lambda>_.
       (Inr Undefined, snd (delete_permission targetUserId listId d))))"

subsection \<open>The items of a list\<close>

text \<open>
  The test \<open>['in-progress', 'complete', 'canceled'].includes(body.state)\<close> and the state
  it lets through; \<open>body.state != null && !...\<close> refuses a state that is given and unknown.
\<close>

definition state_of :: "string \<Rightarrow> item_state option" where
  "state_of s =
     (if s = ''in-progress'' then Some InProgress
      else if s = ''complete'' then Some Complete
      else if s = ''canceled'' then Some Canceled
      else None)"

definition unknown_state :: "string option \<Rightarrow> string option" where
  "unknown_state st =
     (case st of None \<Rightarrow> None | Some s \<Rightarrow> if state_of s = None then Some s else None)"

definition invalid_state :: "string \<Rightarrow> error" where
  "invalid_state s =
     ClientError \<lparr>status = 400, code = ''invalid-state'',
       message = ''Unknown state '' @ quoted s @ ''.'', data = None\<rparr>"

definition missing_item :: error where
  "missing_item =
     ClientError \<lparr>status = 400, code = ''missing-item'', message = ''Item not found.'',
       data = None\<rparr>"

record item_body =
  ib_name :: string
  ib_description :: "string option"
  ib_state :: "string option"

text \<open>\<open>POST /list/:listId/item\<close>.\<close>

definition post_list_item ::
  "env \<Rightarrow> instant \<Rightarrow> request \<Rightarrow> ident \<Rightarrow> error + item_body \<Rightarrow> db \<Rightarrow> outcome" where
  "post_list_item env now req listId vbody d =
     awaiting (authenticate env now req d Optional) d (\<lambda>who.
     awaiting (checkPermissions d (a_userId who) listId Write) d (\<lambda>_.
     awaiting vbody d (\<lambda>body.
       (case unknown_state (ib_state body) of
          Some s \<Rightarrow> (Inl (invalid_state s), d)
        | None \<Rightarrow>
            (case insert_item (ib_name body) (ib_description body)
                    (Option.bind (ib_state body) state_of) listId d of
               Inl err \<Rightarrow> (Inl (SqlError err), d)
             | Inr (itemId, d1) \<Rightarrow> (Inr (ItemCreated itemId), d1))))))"

text \<open>\<open>GET /list/:listId/item/:itemId\<close>.\<close>

definition get_list_item :: "env \<Rightarrow> instant \<Rightarrow> request \<Rightarrow> ident \<Rightarrow> ident \<Rightarrow> db \<Rightarrow> outcome" where
  "get_list_item env now req listId itemId d =
     awaiting (authenticate env now req d Optional) d (\<lambda>who.
     awaiting (checkPermissions d (a_userId who) listId Read) d (\<lambda>_.
       (case select_item listId itemId d of
          [] \<Rightarrow> (Inl missing_item, d)
        | item # _ \<Rightarrow> (Inr (ItemFound item), d))))"

record item_update_body =
  iu_name :: "string option"
  iu_description :: "string option"
  iu_state :: "string option"

text \<open>
  \<open>PUT /list/:listId/item/:itemId\<close>. The handler counts the keys of the body as it was
  sent, \<open>Object.keys(req.body)\<close>, before it validates it; both come with the request.
\<close>

definition put_list_item ::
  "env \<Rightarrow> instant \<Rightarrow> request \<Rightarrow> ident \<Rightarrow> ident \<Rightarrow> string list \<Rightarrow> error + item_update_body \<Rightarrow> db
     \<Rightarrow> outcome" where
  "put_list_item env now req listId itemId keys vbody d =
     awaiting (authenticate env now req d Required) d (\<lambda>who.
     awaiting (checkPermissions d (a_userId who) listId Write) d (\<lambda>_.
       if length keys = 0 then (Inr Undefined, d)
       else
         awaiting vbody d (\<lambda>body.
           (case unknown_state (iu_state body) of
              Some s \<Rightarrow> (Inl (invalid_state s), d)
            | None \<Rightarrow>
                let patch = \<lparr>ip_name = iu_name body, ip_description = iu_description body,
                      ip_state = Option.bind (iu_state body) state_of\<rparr>
                in (case update_item patch listId itemId d of
                      Inl err \<Rightarrow> (Inl (SqlError err), d)
                    | Inr (affectedRows, d1) \<Rightarrow>
                        if affectedRows = 0 then (Inl missing_item, d1)
                        else (Inr Undefined, d1))))))"

text \<open>\<open>DELETE /list/:listId/item/:itemId\<close>.\<close>

definition delete_list_item :: "env \<Rightarrow> instant \<Rightarrow> request \<Rightarrow> ident \<Rightarrow> ident \<Rightarrow> db \<Rightarrow> outcome" where
  "delete_list_item env now req listId itemId d =
     awaiting (authenticate env now req d Optional) d (\<lambda>who.
     awaiting (checkPermissions d (a_userId who) listId Write) d (\<lambda>_.
       (case delete_item listId itemId d of
          (affectedRows, d1) \<Rightarrow>
            if affectedRows = 0 then (Inl missing_item, d1)
            else (Inr Undefined, d1))))"

section \<open>The reclamation sweep of database.js\<close>

text \<open>
  \<open>purge\<close> takes a connection, runs its two statements inside one \<open>try\<close> block and
  releases the connection in \<open>finally\<close>. The storage may fail at each of the three
  calls; which of them fail in a run is an input. A run is described by what it
  returns (or throws), the trace of what it did, and the database it leaves.
\<close>

record faults =
  connection_fails :: bool
  pass1_fails :: bool
  pass2_fails :: bool

datatype event =
  Query1
  | Query2
  | PurgedSessions nat
  | PurgedLists nat
  | Released
  | ConsoleError error

type_synonym run = "(error + unit) \<times> event list \<times> db"

definition purge :: "instant \<Rightarrow> faults \<Rightarrow> db \<Rightarrow> run" where
  "purge now f d =
     (if connection_fails f then (Inl (SqlError StorageFailure), [], d)
      else if pass1_fails f then (Inl (SqlError StorageFailure), [Query1, Released], d)
      else
        (case delete_expired_sessions now d of
           (n1, d1) \<Rightarrow>
             let log1 = (if n1 \<noteq> 0 then [PurgedSessions n1] else []) in
             if pass2_fails f
             then (Inl (SqlError StorageFailure), [Query1] @ log1 @ [Query2, Released], d1)
             else
               (case delete_orphaned_lists d1 of
                  (n2, d2) \<Rightarrow>
                    let log2 = (if n2 \<noteq> 0 then [PurgedLists n2] else []) in
                    (Inr (), [Query1] @ log1 @ [Query2] @ log2 @ [Released], d2))))"

text \<open>
  The timer callbacks, \<open>() => purge().catch(console.error)\<close>: a rejection of \<open>purge\<close> is
  handed to \<open>console.error\<close>, and the promise of the callback is fulfilled.
\<close>

definition catch_console_error :: "run \<Rightarrow> run" where
  "catch_console_error r =
     (case r of
        (Inl e, evs, d) \<Rightarrow> (Inr (), evs @ [ConsoleError e], d)
      | (Inr u, evs, d) \<Rightarrow> (Inr u, evs, d))"

definition purge_tick :: "instant \<Rightarrow> faults \<Rightarrow> db \<Rightarrow> run" where
  "purge_tick now f d = catch_console_error (purge now f d)"

section \<open>The reachable states\<close>

text \<open>
  The calls that write to the database: the handlers above with their inputs, and a run
  of the sweep. A state is reachable when a server started on an empty database comes
  to it by such calls, each at some instant.
\<close>

datatype call =
  PostUser "error + signup_body" string
  | PutUser request "error + user_body" string
  | DeleteUser request
  | PostUserLogin request
  | PostUserLogout request
  | PostList request "error + string"
  | PutList request ident "error + string option"
  | DeleteList request ident
  | PutListUser request ident ident "error + string"
  | DeleteListUser request ident ident
  | PostListItem request ident "error + item_body"
  | PutListItem request ident ident "string list" "error + item_update_body"
  | DeleteListItem request ident ident
  | Sweep faults

fun step :: "env \<Rightarrow> instant \<Rightarrow> call \<Rightarrow> db \<Rightarrow> db" where
  "step env now (PostUser vbody salt) d = snd (post_user env now vbody salt d)"
| "step env now (PutUser req vbody salt) d = snd (put_user env now req vbody salt d)"
| "step env now (DeleteUser req) d = snd (delete_user env now req d)"
| "step env now (PostUserLogin req) d = snd (post_user_login env now req d)"
| "step env now (PostUserLogout req) d = snd (post_user_logout env now req d)"
| "step env now (PostList req vbody) d = snd (post_list env now req vbody d)"
| "step env now (PutList req l vbody) d = snd (put_list env now req l vbody d)"
| "step env now (DeleteList req l) d = snd (delete_list env now req l d)"
| "step env now (PutListUser req l u vbody) d = snd (put_list_user env now req l u vbody d)"
| "step env now (DeleteListUser req l u) d = snd (delete_list_user env now req l u d)"
| "step env now (PostListItem req l vbody) d = snd (post_list_item env now req l vbody d)"
| "step env now (PutListItem req l i keys vbody) d =
     snd (put_list_item env now req l i keys vbody d)"
| "step env now (DeleteListItem req l i) d = snd (delete_list_item env now req l i d)"
| "step env now (Sweep f) d = snd (snd (purge_tick now f d))"

inductive reachable :: "env \<Rightarrow> db \<Rightarrow> bool" for env :: env where
  reachable_init: "reachable env init"
| reachable_step: "reachable env d \<Longrightarrow> reachable env (step env now c d)"

section \<open>The permission key and the invariant of the reachable states\<close>

text \<open>The key of \<open>UNIQUE(userId, listId)\<close>, with a \<open>NULL\<close> userId as \<open>None\<close>.\<close>

definition perm_key :: "permission_row \<Rightarrow> ident option \<times> ident" where
  "perm_key p = (p_userId p, p_listId p)"

text \<open>
  The invariant behind the uniqueness of the permission key: no two permission rows
  have the same (userId, listId), and the identifiers of the lists, and those the
  permissions refer to, lie below the next \<open>AUTO_INCREMENT\<close> value of \<open>todo.lists\<close>.
\<close>

definition key_inv :: "db \<Rightarrow> bool" where
  "key_inv d \<longleftrightarrow>
     distinct (map perm_key (todo_permissions d)) \<and>
     (\<forall>p \<in> set (todo_permissions d). p_listId p < lists_auto d) \<and>
     (\<forall>l \<in> set (todo_lists d). l_id l < lists_auto d)"

section \<open>Sample data\<close>

text \<open>
  A configuration and a database on which the statements below are evaluated. The token
  of session \<open>n\<close> is the letter s repeated \<open>n\<close> times. Instants are in milliseconds; the
  sample time is 10000, one second after session 1 expired, the instant at which
  session 3 expires, and one hour before session 2 expires. List 2 has an item and no
  permission row.
\<close>

definition sample_env :: env where
  "sample_env =
     \<lparr>tokenLifetime = 3600000,
      encrypt = (\<lambda>sid. replicate sid (CHR ''s'')),
      decrypt = (\<lambda>t. if t = replicate (length t) (CHR ''s'') then Some (length t) else None),
      hashPassword = (\<lambda>pw salt. salt @ pw)\<rparr>"

definition sample_db :: db where
  "sample_db =
     \<lparr>todo_users =
        [\<lparr>u_id = 1, u_firstName = Some ''John'', u_lastName = Some ''Doe'',
          u_username = ''johndoe'', u_password = ''NaClsecret'', u_salt = ''NaCl''\<rparr>,
         \<lparr>u_id = 2, u_firstName = None, u_lastName = None,
          u_username = ''jane'', u_password = ''KClpw'', u_salt = ''KCl''\<rparr>],
      todo_sessions =
        [\<lparr>s_id = 1, s_userId = 1, s_expirationDate = 9000\<rparr>,
         \<lparr>s_id = 2, s_userId = 1, s_expirationDate = 3610000\<rparr>,
         \<lparr>s_id = 3, s_userId = 2, s_expirationDate = 10000\<rparr>],
      todo_lists = [\<lparr>l_id = 1, l_name = ''Groceries''\<rparr>, \<lparr>l_id = 2, l_name = ''Errands''\<rparr>],
      todo_items =
        [\<lparr>i_id = 1, i_listId = 1, i_name = ''Apples'', i_description = None,
          i_state = InProgress\<rparr>,
         \<lparr>i_id = 2, i_listId = 2, i_name = ''Stamps'', i_description = None,
          i_state = InProgress\<rparr>],
      todo_permissions = [\<lparr>p_id = 1, p_userId = Some 1, p_listId = 1, p_role = Owner\<rparr>],
      users_auto = 3, sessions_auto = 4, lists_auto = 3, items_auto = 3,
      permissions_auto = 2\<rparr>"

text \<open>The request of user 1 with the token of the live session 2, and a request without a token.\<close>

definition by_user1 :: request where
  "by_user1 = \<lparr>bearer = Some ''ss'', login = None\<rparr>"

definition anonymous :: request where
  "anonymous = \<lparr>bearer = None, login = None\<rparr>"

text \<open>
  A run of the sweep in which every storage call succeeds, and one in which the first
  statement fails.
\<close>

definition no_faults :: faults where
  "no_faults = \<lparr>connection_fails = False, pass1_fails = False, pass2_fails = False\<rparr>"

definition pass1_fault :: faults where
  "pass1_fault = \<lparr>connection_fails = False, pass1_fails = True, pass2_fails = False\<rparr>"

text \<open>A body without a recognised field, as the validation returns it.\<close>

definition empty_item_update :: item_update_body where
  "empty_item_update = \<lparr>iu_name = None, iu_description = None, iu_state = None\<rparr>"

text \<open>
  A run of the server from the empty database: johndoe and jane sign up (users 1 and 2,
  with the sessions 1 and 2), johndoe creates list 1 with the token of session 1, and a
  caller without a token creates list 2.
\<close>

definition by_session1 :: request where
  "by_session1 = \<lparr>bearer = Some ''s'', login = None\<rparr>"

definition grown_db :: db where
  "grown_db =
     step sample_env 0 (PostList anonymous (Inr ''Public''))
       (step sample_env 0 (PostList by_session1 (Inr ''Groceries''))
         (step sample_env 0
            (PostUser (Inr \<lparr>sb_firstName = None, sb_lastName = None, sb_username = ''jane'',
               sb_password = ''pw''\<rparr>) ''KCl'')
            (step sample_env 0
               (PostUser (Inr \<lparr>sb_firstName = Some ''John'', sb_lastName = Some ''Doe'',
                  sb_username = ''johndoe'', sb_password = ''secret''\<rparr>) ''NaCl'')
               init)))"

text \<open>
  The run goes on: johndoe adds the item Apples to list 1 and the anonymous caller the
  item Stamps to list 2 (\<open>busy_db\<close>); then johndoe revokes his own permission on list 1,
  which leaves list 1 without a permission row (\<open>orphaned_db\<close>).
\<close>

definition busy_db :: db where
  "busy_db =
     step sample_env 0
       (PostListItem anonymous 2
          (Inr \<lparr>ib_name = ''Stamps'', ib_description = None, ib_state = None\<rparr>))
       (step sample_env 0
          (PostListItem by_session1 1
             (Inr \<lparr>ib_name = ''Apples'', ib_description = None, ib_state = None\<rparr>))
          grown_db)"

definition orphaned_db :: db where
  "orphaned_db = step sample_env 0 (DeleteListUser by_session1 1 1) busy_db"

text \<open>
  Another continuation of \<open>grown_db\<close>: johndoe grants jane the role read on list 1
  (\<open>shared_db\<close>).
\<close>

definition shared_db :: db where
  "shared_db = step sample_env 1 (PutListUser by_session1 1 2 (Inr ''read'')) grown_db"

section \<open>Sample runs\<close>

lemma reachable_grown_db: "reachable sample_env grown_db"
  unfolding grown_db_def by (intro reachable.intros)

lemma reachable_busy_db: "reachable sample_env busy_db"
  unfolding busy_db_def by (intro reachable.intros reachable_grown_db)

lemma reachable_orphaned_db: "reachable sample_env orphaned_db"
  unfolding orphaned_db_def by (intro reachable.intros reachable_busy_db)

lemma reachable_shared_db: "reachable sample_env shared_db"
  unfolding shared_db_def by (intro reachable.intros reachable_grown_db)

section \<open>Rules for the handlers\<close>

text \<open>
  A property of the database that holds before \<open>await\<close> and after the continuation holds
  after the whole; with it, what a handler leaves is reduced to what its statements
  leave.
\<close>

lemma awaiting_snd:
  assumes "P d" and "\<And>x. r = Inr x \<Longrightarrow> P (snd (k x))"
  shows "P (snd (awaiting r d k))"
  using assms by (cases r) (simp_all add: awaiting_def)

lemma put_list_user_Inr:
  assumes "put_list_user env now req l t vbody d = (Inr rep, d')"
  shows "\<exists>who held rs r. authenticate env now req d Required = Inr who \<and>
           checkPermissions d (a_userId who) l Owner = Inr held \<and> vbody = Inr rs \<and>
           role_of rs = Some r \<and> upsert_permission t l r d = Inr d'"
  using assms
  by (auto simp: put_list_user_def awaiting_def split: sum.splits option.splits)

lemma put_list_user_preserves:
  assumes base: "P d"
    and ups: "\<And>r d'. role_of rs = Some r \<Longrightarrow> upsert_permission t l r d = Inr d' \<Longrightarrow> P d'"
  shows "P (snd (put_list_user env now req l t (Inr rs) d))"
  unfolding put_list_user_def
  apply (rule awaiting_snd[of P d, OF base])
  apply (rule awaiting_snd[of P d, OF base])
  apply (rule awaiting_snd[of P d, OF base])
  using base
  apply (auto split: sum.splits option.splits dest: ups)
  done

lemma put_list_item_preserves:
  assumes base: "P d" and upd: "\<And>b n d'. update_item b l i d = Inr (n, d') \<Longrightarrow> P d'"
  shows "P (snd (put_list_item env now req l i keys vbody d))"
  unfolding put_list_item_def Let_def
  apply (rule awaiting_snd[of P d, OF base])
  apply (rule awaiting_snd[of P d, OF base])
  apply (cases "length keys = 0")
   apply (simp add: base)
  apply (simp only: if_False)
  apply (rule awaiting_snd[of P d, OF base])
  apply (auto simp: base dest: upd split: option.splits sum.splits)
  done

lemma delete_list_item_preserves:
  assumes base: "P d" and del: "P (snd (delete_item l i d))"
  shows "P (snd (delete_list_item env now req l i d))"
  unfolding delete_list_item_def
  apply (rule awaiting_snd[of P d, OF base])
  apply (rule awaiting_snd[of P d, OF base])
  using del apply (auto split: prod.splits)
  done

lemma sample_by_user1:
  "authenticate sample_env 10000 by_user1 sample_db Required =
     Inr \<lparr>a_userId = Some 1, a_sessionId = Some 2\<rparr>"
  "authenticate sample_env 10000 by_user1 sample_db Optional =
     Inr \<lparr>a_userId = Some 1, a_sessionId = Some 2\<rparr>"
  by (simp_all add: by_user1_def sample_env_def sample_db_def authenticate_token_def resolve_def)

lemma sample_user1_owner: "checkPermissions sample_db (Some 1) 1 m = Inr Owner"
  by (cases m) (simp_all add: checkPermissions_def lookup_permission_def sample_db_def)

section \<open>Authentication\<close>

lemma authenticate_token_live:
  assumes "authenticate_token env now d t = Inr who"
  shows "\<exists>sid s. a_sessionId who = Some sid \<and> resolve d sid = Some s \<and>
           now < s_expirationDate s \<and> a_userId who = Some (s_userId s)"
  using assms by (auto simp: authenticate_token_def split: option.splits if_splits)

text \<open>
  C4. With a bearer token that opens to the id of a stored session, \<open>authenticate\<close> in the
  required mode fails with Unauthorized when the expiration instant of the session is at
  or before the current time, although the row is still in the store, and returns the
  identity of the session when the expiration instant is after the current time (one
  hour after it, for instance); so it succeeds if and only if the session expires
  strictly after the instant of use. The optional mode refuses the expired session in
  the same way, and a session id that any token mode returns is that of a stored
  session that has not expired.
\<close>

theorem authenticate_required_expiry:
  assumes "bearer req = Some t" and "decrypt env t = Some sid" and "resolve d sid = Some s"
  shows "(s_expirationDate s \<le> now \<longrightarrow> authenticate env now req d Required = Inl Unauthorized) \<and>
         (now < s_expirationDate s \<longrightarrow>
            authenticate env now req d Required =
              Inr \<lparr>a_userId = Some (s_userId s), a_sessionId = Some sid\<rparr>) \<and>
         (s_expirationDate s = now + 3600000 \<longrightarrow>
            authenticate env now req d Required =
              Inr \<lparr>a_userId = Some (s_userId s), a_sessionId = Some sid\<rparr>) \<and>
         ((\<exists>who. authenticate env now req d Required = Inr who) \<longleftrightarrow> now < s_expirationDate s) \<and>
         (s_expirationDate s \<le> now \<longrightarrow> authenticate env now req d Optional = Inl Unauthorized) \<and>
         (\<forall>mode who sid'.
            (mode = Required \<or> mode = Optional) \<and> authenticate env now req d mode = Inr who \<and>
            a_sessionId who = Some sid' \<longrightarrow>
              (\<exists>s'. resolve d sid' = Some s' \<and> now < s_expirationDate s'))"
proof -
  have tok: "authenticate env now req d Required = authenticate_token env now d t"
    "authenticate env now req d Optional = authenticate_token env now d t"
    using assms(1) by simp_all
  have eval: "authenticate_token env now d t =
      (if s_expirationDate s \<le> now then Inl Unauthorized
       else Inr \<lparr>a_userId = Some (s_userId s), a_sessionId = Some sid\<rparr>)"
    using assms(2,3) by (simp add: authenticate_token_def)
  have live: "\<exists>s'. resolve d sid' = Some s' \<and> now < s_expirationDate s'"
    if "(mode = Required \<or> mode = Optional) \<and> authenticate env now req d mode = Inr who \<and>
        a_sessionId who = Some sid'" for mode who sid'
  proof -
    from that have "authenticate_token env now d t = Inr who"
      using tok by auto
    from authenticate_token_live[OF this] that show ?thesis
      by auto
  qed
  have main: "(s_expirationDate s \<le> now \<longrightarrow> authenticate env now req d Required = Inl Unauthorized) \<and>
         (now < s_expirationDate s \<longrightarrow>
            authenticate env now req d Required =
              Inr \<lparr>a_userId = Some (s_userId s), a_sessionId = Some sid\<rparr>) \<and>
         (s_expirationDate s = now + 3600000 \<longrightarrow>
            authenticate env now req d Required =
              Inr \<lparr>a_userId = Some (s_userId s), a_sessionId = Some sid\<rparr>) \<and>
         ((\<exists>who. authenticate env now req d Required = Inr who) \<longleftrightarrow> now < s_expirationDate s) \<and>
         (s_expirationDate s \<le> now \<longrightarrow> authenticate env now req d Optional = Inl Unauthorized)"
    unfolding tok eval by auto
  show ?thesis
    using main live by blast
qed

text \<open>
  At the sample time the token of session 1 (expired a second ago) and the token of
  session 3 (expiring at this instant) are refused; the token of session 2 (expiring in
  an hour) is accepted.
\<close>

theorem authenticate_required_expiry_witness:
  "authenticate sample_env 10000 \<lparr>bearer = Some ''s'', login = None\<rparr> sample_db Required =
     Inl Unauthorized \<and>
   authenticate sample_env 10000 \<lparr>bearer = Some ''sss'', login = None\<rparr> sample_db Required =
     Inl Unauthorized \<and>
   authenticate sample_env 10000 \<lparr>bearer = Some ''ss'', login = None\<rparr> sample_db Required =
     Inr \<lparr>a_userId = Some 1, a_sessionId = Some 2\<rparr>"
proof -
  have d1: "decrypt sample_env ''s'' = Some 1" and d2: "decrypt sample_env ''ss'' = Some 2"
    and d3: "decrypt sample_env ''sss'' = Some 3"
    by (simp_all add: sample_env_def)
  have r1: "resolve sample_db 1 = Some \<lparr>s_id = 1, s_userId = 1, s_expirationDate = 9000\<rparr>"
    and r2: "resolve sample_db 2 = Some \<lparr>s_id = 2, s_userId = 1, s_expirationDate = 3610000\<rparr>"
    and r3: "resolve sample_db 3 = Some \<lparr>s_id = 3, s_userId = 2, s_expirationDate = 10000\<rparr>"
    by (simp_all add: resolve_def sample_db_def)
  have b: "bearer \<lparr>bearer = Some x, login = None\<rparr> = Some x" for x :: token
    by simp
  show ?thesis
    using authenticate_required_expiry[OF b d1 r1, of 10000]
      authenticate_required_expiry[OF b d3 r3, of 10000]
      authenticate_required_expiry[OF b d2 r2, of 10000]
    by simp
qed

section \<open>The role hierarchy and the permission check\<close>



lemma lookup_permission_Some:
  "lookup_permission d uid lid = Some p \<Longrightarrow>
     p \<in> set (todo_permissions d) \<and> p_userId p = uid \<and> p_listId p = lid"
  by (auto simp: lookup_permission_def find_Some_iff)


lemma find_updated:
  assumes "\<And>p. P p \<Longrightarrow> P (f p)"
  shows "find P (map (\<lambda>p. if P p then f p else p) xs) = map_option f (find P xs)"
  using assms by (induction xs) auto

lemma find_snoc:
  "find P (xs @ [y]) = (case find P xs of None \<Rightarrow> (if P y then Some y else None) | Some x \<Rightarrow> Some x)"
  by (induction xs) auto

lemma lookup_after_upsert:
  assumes "upsert_permission t l r d = Inr d'"
  shows "\<exists>p. lookup_permission d' (Some t) l = Some p \<and> p_role p = r"
proof (cases "\<exists>p \<in> set (todo_permissions d). p_userId p = Some t \<and> p_listId p = l")
  case True
  then obtain q where
    q: "find (\<lambda>p. p_userId p = Some t \<and> p_listId p = l) (todo_permissions d) = Some q"
    by (cases "find (\<lambda>p. p_userId p = Some t \<and> p_listId p = l) (todo_permissions d)")
      (auto simp: find_None_iff)
  from True assms have d': "d' = d\<lparr>todo_permissions :=
      map (\<lambda>p. if p_userId p = Some t \<and> p_listId p = l then p\<lparr>p_role := r\<rparr> else p)
        (todo_permissions d)\<rparr>"
    by (simp add: upsert_permission_def)
  have "lookup_permission d' (Some t) l = Some (q\<lparr>p_role := r\<rparr>)"
    unfolding lookup_permission_def d' by (simp add: find_updated q)
  then show ?thesis by simp
next
  case False
  then have none:
    "find (\<lambda>p. p_userId p = Some t \<and> p_listId p = l) (todo_permissions d) = None"
    by (simp add: find_None_iff)
  from False assms have "d' = d\<lparr>todo_permissions := todo_permissions d @
        [\<lparr>p_id = permissions_auto d, p_userId = Some t, p_listId = l, p_role = r\<rparr>],
      permissions_auto := Suc (permissions_auto d)\<rparr>"
    by (auto simp: upsert_permission_def insert_permission_def split: if_splits)
  then show ?thesis
    using none by (simp add: lookup_permission_def find_snoc)
qed



section \<open>Signup with a taken username\<close>

text \<open>
  C6. A signup (\<open>POST /user\<close>) whose validated body carries the username of an existing
  user throws the ClientError with status 409 and code username-taken, whose data is
  the username, and leaves the database as it was: no user row and no session row is
  added.
\<close>

theorem signup_duplicate_username:
  assumes "sb_username body \<in> set (map u_username (todo_users d))"
  shows "post_user env now (Inr body) salt d =
           (Inl (ClientError \<lparr>status = 409, code = ''username-taken'',
              message = ''Username already in use.'', data = Some (sb_username body)\<rparr>), d) \<and>
         todo_users (snd (post_user env now (Inr body) salt d)) = todo_users d \<and>
         todo_sessions (snd (post_user env now (Inr body) salt d)) = todo_sessions d"
  using assms by (simp add: post_user_def awaiting_def insert_user_def)

text \<open>A second signup as johndoe on the sample database.\<close>

theorem signup_duplicate_username_witness:
  "post_user sample_env 10000
     (Inr \<lparr>sb_firstName = None, sb_lastName = None, sb_username = ''johndoe'',
           sb_password = ''other''\<rparr>) ''salt'' sample_db =
     (Inl (ClientError \<lparr>status = 409, code = ''username-taken'',
        message = ''Username already in use.'', data = Some ''johndoe''\<rparr>), sample_db)"
proof -
  have taken: "sb_username \<lparr>sb_firstName = None, sb_lastName = None, sb_username = ''johndoe'',
      sb_password = ''other''\<rparr> \<in> set (map u_username (todo_users sample_db))"
    by (simp add: sample_db_def)
  from signup_duplicate_username[OF taken, of sample_env 10000 "''salt''"] show ?thesis
    by simp
qed

section \<open>Granting an unknown role\<close>

lemma role_of_None: "role_of rs = None \<longleftrightarrow> rs \<notin> {''owner'', ''write'', ''read''}"
  by (simp add: role_of_def)

text \<open>
  C7. For a role outside owner, write and read, \<open>PUT /list/:listId/user/:userId\<close> never
  succeeds and leaves the database, and so the permission table, as it was; once the
  caller is authenticated and holds owner on the list, what it throws is the ClientError
  with the default status 400 and the code invalid-role.
\<close>

theorem grant_invalid_role:
  assumes "rs \<notin> {''owner'', ''write'', ''read''}"
  shows "(\<exists>e. put_list_user env now req l t (Inr rs) d = (Inl e, d)) \<and>
         todo_permissions (snd (put_list_user env now req l t (Inr rs) d)) = todo_permissions d \<and>
         (\<forall>who held.
            authenticate env now req d Required = Inr who \<and>
            checkPermissions d (a_userId who) l Owner = Inr held \<longrightarrow>
              put_list_user env now req l t (Inr rs) d =
                (Inl (ClientError \<lparr>status = 400, code = ''invalid-role'',
                   message = ''Unknown role '' @ quoted rs @ ''.'', data = None\<rparr>), d))"
proof -
  from assms have none: "role_of rs = None"
    by (simp add: role_of_None)
  show ?thesis
    by (auto simp: put_list_user_def awaiting_def none split: sum.splits)
qed

text \<open>User 1, owner of list 1 on the sample database, grants user 2 the role admin.\<close>

theorem grant_invalid_role_witness:
  "put_list_user sample_env 10000 by_user1 1 2 (Inr ''admin'') sample_db =
     (Inl (ClientError \<lparr>status = 400, code = ''invalid-role'',
        message = ''Unknown role '' @ quoted ''admin'' @ ''.'', data = None\<rparr>), sample_db)"
proof -
  have bad: "''admin'' \<notin> {''owner'', ''write'', ''read''}"
    by simp
  have gate: "authenticate sample_env 10000 by_user1 sample_db Required =
      Inr \<lparr>a_userId = Some 1, a_sessionId = Some 2\<rparr>"
    by (rule sample_by_user1)
  have held: "checkPermissions sample_db (a_userId \<lparr>a_userId = Some 1, a_sessionId = Some 2\<rparr>) 1 Owner
      = Inr Owner"
    by (simp add: checkPermissions_def lookup_permission_def sample_db_def)
  from grant_invalid_role[OF bad, of sample_env 10000 by_user1 1 2 sample_db,
      THEN conjunct2, THEN conjunct2, rule_format, OF conjI, OF gate held]
  show ?thesis .
qed

section \<open>Revoking and deleting a session twice\<close>

lemma delete_permission_absent:
  assumes "\<not> (\<exists>p \<in> set (todo_permissions d). p_userId p = Some t \<and> p_listId p = l)"
  shows "delete_permission t l d = (0, d)"
proof -
  from assms have "filter (\<lambda>p. \<not> (p_userId p = Some t \<and> p_listId p = l)) (todo_permissions d) =
      todo_permissions d"
    by (auto simp: filter_id_conv)
  moreover from assms have
    "filter (\<lambda>p. p_userId p = Some t \<and> p_listId p = l) (todo_permissions d) = []"
    by (auto simp: filter_empty_conv)
  ultimately show ?thesis
    by (simp add: delete_permission_def)
qed

lemma delete_permission_removes:
  "\<not> (\<exists>p \<in> set (todo_permissions (snd (delete_permission t l d))). p_userId p = Some t \<and> p_listId p = l)"
  by (simp add: delete_permission_def)

lemma delete_session_absent:
  assumes "\<not> (\<exists>s \<in> set (todo_sessions d). s_id s = sid)"
  shows "delete_session sid d = (0, d)"
proof -
  from assms have "filter (\<lambda>s. s_id s \<noteq> sid) (todo_sessions d) = todo_sessions d"
    by (auto simp: filter_id_conv)
  moreover from assms have "filter (\<lambda>s. s_id s = sid) (todo_sessions d) = []"
    by (auto simp: filter_empty_conv)
  ultimately show ?thesis
    by (simp add: delete_session_def)
qed

lemma delete_session_removes:
  "\<not> (\<exists>s \<in> set (todo_sessions (snd (delete_session sid d))). s_id s = sid)"
  by (simp add: delete_session_def)

lemma delete_list_user_gated:
  assumes "authenticate env now req d Optional = Inr who"
    and "checkPermissions d (a_userId who) l Owner = Inr held"
  shows "delete_list_user env now req l t d = (Inr Undefined, snd (delete_permission t l d))"
  using assms by (simp add: delete_list_user_def awaiting_def)

lemma delete_list_user_error:
  assumes "delete_list_user env now req l t d = (Inl e, d')"
  shows "d' = d \<and> (authenticate env now req d Optional = Inl e \<or>
           (\<exists>who. authenticate env now req d Optional = Inr who \<and>
                  checkPermissions d (a_userId who) l Owner = Inl e))"
  using assms by (auto simp: delete_list_user_def awaiting_def split: sum.splits)

lemma post_user_logout_error:
  assumes "post_user_logout env now req d = (Inl e, d')"
  shows "d' = d \<and> authenticate env now req d Optional = Inl e"
  using assms by (auto simp: post_user_logout_def awaiting_def split: sum.splits option.splits)

text \<open>
  C8. The statement that revokes, \<open>DELETE FROM todo.permissions WHERE userId = ? AND
  listId = ?\<close>, affects no row and leaves the database as it is when there is no
  permission row for (userId, listId), and this is the case right after a first revoke;
  \<open>DELETE /list/:listId/user/:userId\<close> then returns normally with the database
  unchanged whenever the caller passes its authentication and owner check, and the
  only errors the handler throws are those of these two checks. Likewise
  \<open>DELETE FROM todo.sessions WHERE id = ?\<close> affects no row and leaves the database as it
  is when no session has that id, as after a first deletion, and \<open>POST /user/logout\<close>
  throws no error but that of its authentication.
\<close>

theorem revoke_and_session_delete_idempotent:
  "(\<not> (\<exists>p \<in> set (todo_permissions d). p_userId p = Some t \<and> p_listId p = l) \<longrightarrow>
      delete_permission t l d = (0, d) \<and>
      (\<forall>env now req who held.
         authenticate env now req d Optional = Inr who \<and>
         checkPermissions d (a_userId who) l Owner = Inr held \<longrightarrow>
           delete_list_user env now req l t d = (Inr Undefined, d))) \<and>
   delete_permission t l (snd (delete_permission t l d)) = (0, snd (delete_permission t l d)) \<and>
   (\<forall>env now req e d'. delete_list_user env now req l t d = (Inl e, d') \<longrightarrow>
      d' = d \<and> (authenticate env now req d Optional = Inl e \<or>
        (\<exists>who. authenticate env now req d Optional = Inr who \<and>
               checkPermissions d (a_userId who) l Owner = Inl e))) \<and>
   (\<not> (\<exists>s \<in> set (todo_sessions d). s_id s = sid) \<longrightarrow> delete_session sid d = (0, d)) \<and>
   delete_session sid (snd (delete_session sid d)) = (0, snd (delete_session sid d)) \<and>
   (\<forall>env now req e d'. post_user_logout env now req d = (Inl e, d') \<longrightarrow>
      d' = d \<and> authenticate env now req d Optional = Inl e)"
proof (intro conjI allI impI)
  assume absent: "\<not> (\<exists>p \<in> set (todo_permissions d). p_userId p = Some t \<and> p_listId p = l)"
  then show "delete_permission t l d = (0, d)"
    by (rule delete_permission_absent)
  fix env now req who held
  assume "authenticate env now req d Optional = Inr who \<and>
         checkPermissions d (a_userId who) l Owner = Inr held"
  then show "delete_list_user env now req l t d = (Inr Undefined, d)"
    using delete_list_user_gated[of env now req d who l held t] delete_permission_absent[OF absent]
    by simp
next
  show "delete_permission t l (snd (delete_permission t l d)) = (0, snd (delete_permission t l d))"
    by (rule delete_permission_absent[OF delete_permission_removes])
next
  show "delete_session sid (snd (delete_session sid d)) = (0, snd (delete_session sid d))"
    by (rule delete_session_absent[OF delete_session_removes])
qed (use delete_list_user_error post_user_logout_error delete_session_absent in blast)+

text \<open>
  On the sample database user 2 has no permission row for list 1 and no session has the
  id 7: the owner's revoke of user 2 returns normally, both statements affect no row,
  and the database stays as it is.
\<close>

theorem revoke_and_session_delete_idempotent_witness:
  "delete_permission 2 1 sample_db = (0, sample_db) \<and>
   delete_list_user sample_env 10000 by_user1 1 2 sample_db = (Inr Undefined, sample_db) \<and>
   delete_session 7 sample_db = (0, sample_db)"
proof -
  have absent: "\<not> (\<exists>p \<in> set (todo_permissions sample_db). p_userId p = Some 2 \<and> p_listId p = 1)"
    by (simp add: sample_db_def)
  have no_session: "\<not> (\<exists>s \<in> set (todo_sessions sample_db). s_id s = 7)"
    by (simp add: sample_db_def)
  have held: "checkPermissions sample_db (a_userId \<lparr>a_userId = Some 1, a_sessionId = Some 2\<rparr>) 1 Owner
      = Inr Owner"
    using sample_user1_owner[of Owner] by simp
  note gate = conjI[OF sample_by_user1(2) held]
  note at = revoke_and_session_delete_idempotent[of sample_db 2 1 7]
  note revoke = at[THEN conjunct1, rule_format, OF absent]
  note session = at[THEN conjunct2, THEN conjunct2, THEN conjunct2, THEN conjunct1, rule_format,
      OF no_session]
  from revoke[THEN conjunct1] revoke[THEN conjunct2, rule_format, OF gate] session
  show ?thesis
    by simp
qed

section \<open>The reclamation sweep\<close>

lemma purge_trace:
  "fst (snd (purge now f d)) =
     (if connection_fails f then []
      else if pass1_fails f then [Query1, Released]
      else [Query1] @
        (if fst (delete_expired_sessions now d) \<noteq> 0
         then [PurgedSessions (fst (delete_expired_sessions now d))] else []) @
        (if pass2_fails f then [Query2, Released]
         else [Query2] @
           (if fst (delete_orphaned_lists (snd (delete_expired_sessions now d))) \<noteq> 0
            then [PurgedLists (fst (delete_orphaned_lists (snd (delete_expired_sessions now d))))]
            else []) @ [Released]))"
  by (simp add: purge_def Let_def split: prod.splits)

lemma purge_result:
  "fst (purge now f d) =
     (if connection_fails f \<or> pass1_fails f \<or> pass2_fails f then Inl (SqlError StorageFailure)
      else Inr ())"
  by (simp add: purge_def Let_def split: prod.splits)

lemma purge_db:
  "snd (snd (purge now f d)) =
     (if connection_fails f \<or> pass1_fails f then d
      else if pass2_fails f then snd (delete_expired_sessions now d)
      else snd (delete_orphaned_lists (snd (delete_expired_sessions now d))))"
  by (simp add: purge_def Let_def split: prod.splits)

lemma purge_tick_parts:
  "fst (purge_tick now f d) = Inr ()"
  "fst (snd (purge_tick now f d)) =
     fst (snd (purge now f d)) @
       (case fst (purge now f d) of Inl e \<Rightarrow> [ConsoleError e] | Inr _ \<Rightarrow> [])"
  "snd (snd (purge_tick now f d)) = snd (snd (purge now f d))"
  by (cases "purge now f d"; cases "fst (purge now f d)";
      simp add: purge_tick_def catch_console_error_def)+

text \<open>
  C1 (as amended). A timer run of the sweep never ends in a rejection: when \<open>purge\<close>
  throws, the error is handed to \<open>console.error\<close> and the run ends normally. \<open>purge\<close>
  throws exactly when one of its storage calls fails. The two statements stand in one
  \<open>try\<close> block: the second is attempted exactly when the connection was obtained and the
  first did not fail, so a failure of the first statement skips the second in that run
  and leaves the database as it was; a failure of the second keeps what the first
  deleted. The connection is released whenever it was obtained.
\<close>

theorem sweep_failure_is_logged_not_raised:
  "fst (purge_tick now f d) = Inr () \<and>
   (\<forall>e. fst (purge now f d) = Inl e \<longrightarrow> ConsoleError e \<in> set (fst (snd (purge_tick now f d)))) \<and>
   (fst (purge now f d) = Inr () \<longleftrightarrow>
      \<not> connection_fails f \<and> \<not> pass1_fails f \<and> \<not> pass2_fails f) \<and>
   (Query2 \<in> set (fst (snd (purge_tick now f d))) \<longleftrightarrow> \<not> connection_fails f \<and> \<not> pass1_fails f) \<and>
   (Query1 \<in> set (fst (snd (purge_tick now f d))) \<longleftrightarrow> \<not> connection_fails f) \<and>
   (Released \<in> set (fst (snd (purge_tick now f d))) \<longleftrightarrow> \<not> connection_fails f) \<and>
   (connection_fails f \<or> pass1_fails f \<longrightarrow> snd (snd (purge_tick now f d)) = d) \<and>
   (\<not> connection_fails f \<and> \<not> pass1_fails f \<and> pass2_fails f \<longrightarrow>
      snd (snd (purge_tick now f d)) = snd (delete_expired_sessions now d))"
  by (simp add: purge_tick_parts purge_trace purge_result purge_db)

text \<open>
  The first statement fails on the sample database: the failure is logged, the run ends
  normally, and the database is as before.
\<close>

theorem sweep_failure_is_logged_not_raised_witness:
  "fst (purge_tick 10000 pass1_fault sample_db) = Inr () \<and>
   ConsoleError (SqlError StorageFailure) \<in> set (fst (snd (purge_tick 10000 pass1_fault sample_db))) \<and>
   snd (snd (purge_tick 10000 pass1_fault sample_db)) = sample_db"
proof -
  have failed: "fst (purge 10000 pass1_fault sample_db) = Inl (SqlError StorageFailure)"
    by (simp add: purge_result pass1_fault_def)
  have first: "connection_fails pass1_fault \<or> pass1_fails pass1_fault"
    by (simp add: pass1_fault_def)
  note at = sweep_failure_is_logged_not_raised[of 10000 pass1_fault sample_db]
  note logged = at[THEN conjunct2, THEN conjunct1, rule_format, OF failed]
  note same = at[THEN conjunct2, THEN conjunct2, THEN conjunct2, THEN conjunct2, THEN conjunct2,
      THEN conjunct2, THEN conjunct1, rule_format, OF first]
  from at[THEN conjunct1] logged same show ?thesis
    by simp
qed

text \<open>
  Against C1 as stated: in the reachable state \<open>orphaned_db\<close> list 1 has no permission
  row. In the run of the sweep in which the first statement fails, the second statement
  is not attempted; the failure is logged and the database is as before.
\<close>

theorem sweep_pass2_skipped_counterexample:
  "reachable sample_env orphaned_db \<and>
   1 \<in> list_ids orphaned_db \<and> 1 \<notin> set (map p_listId (todo_permissions orphaned_db)) \<and>
   pass1_fails pass1_fault \<and>
   purge_tick 1 pass1_fault orphaned_db =
     (Inr (), [Query1, Released, ConsoleError (SqlError StorageFailure)], orphaned_db) \<and>
   Query2 \<notin> set (fst (snd (purge_tick 1 pass1_fault orphaned_db)))"
proof -
  have "1 \<in> list_ids orphaned_db \<and> 1 \<notin> set (map p_listId (todo_permissions orphaned_db)) \<and>
      pass1_fails pass1_fault \<and>
      purge_tick 1 pass1_fault orphaned_db =
        (Inr (), [Query1, Released, ConsoleError (SqlError StorageFailure)], orphaned_db) \<and>
      Query2 \<notin> set (fst (snd (purge_tick 1 pass1_fault orphaned_db)))"
    by code_simp
  with reachable_orphaned_db show ?thesis
    by simp
qed

section \<open>What a sweep deletes\<close>

lemma delete_orphaned_lists_parts:
  "todo_lists (snd (delete_orphaned_lists d)) =
     filter (\<lambda>l. l_id l \<in> set (map p_listId (todo_permissions d))) (todo_lists d)"
  "todo_permissions (snd (delete_orphaned_lists d)) = todo_permissions d"
  "todo_items (snd (delete_orphaned_lists d)) =
     filter (\<lambda>i. i_listId i \<notin> list_ids d \<or> i_listId i \<in> set (map p_listId (todo_permissions d)))
       (todo_items d)"
  "todo_users (snd (delete_orphaned_lists d)) = todo_users d"
  "todo_sessions (snd (delete_orphaned_lists d)) = todo_sessions d"
proof -
  show "todo_permissions (snd (delete_orphaned_lists d)) = todo_permissions d"
    by (force simp: delete_orphaned_lists_def delete_lists_where_def Let_def filter_id_conv)
  show "todo_items (snd (delete_orphaned_lists d)) =
     filter (\<lambda>i. i_listId i \<notin> list_ids d \<or> i_listId i \<in> set (map p_listId (todo_permissions d)))
       (todo_items d)"
    by (force simp: delete_orphaned_lists_def delete_lists_where_def Let_def list_ids_def
        intro!: filter_cong)
qed (simp_all add: delete_orphaned_lists_def delete_lists_where_def Let_def)

lemma delete_expired_sessions_parts:
  "todo_sessions (snd (delete_expired_sessions now d)) =
     filter (\<lambda>s. now \<le> s_expirationDate s) (todo_sessions d)"
  "todo_lists (snd (delete_expired_sessions now d)) = todo_lists d"
  "todo_permissions (snd (delete_expired_sessions now d)) = todo_permissions d"
  "todo_items (snd (delete_expired_sessions now d)) = todo_items d"
  "todo_users (snd (delete_expired_sessions now d)) = todo_users d"
  "list_ids (snd (delete_expired_sessions now d)) = list_ids d"
  by (simp_all add: delete_expired_sessions_def list_ids_def not_less)

text \<open>
  C5 (as amended). When a run of \<open>purge\<close> completes without a storage failure, the
  session table holds exactly the sessions that do not expire strictly before the
  current time, the list table exactly the lists that a permission row references, and
  the users and the permissions are as before. The items are not all left unchanged:
  the items of a deleted list are deleted with it by the foreign key of \<open>todo.items\<close>;
  the items of every other list are as before.
\<close>

theorem sweep_effect:
  assumes "fst (purge now f d) = Inr ()"
  shows "todo_sessions (snd (snd (purge now f d))) =
           filter (\<lambda>s. now \<le> s_expirationDate s) (todo_sessions d) \<and>
         todo_lists (snd (snd (purge now f d))) =
           filter (\<lambda>l. l_id l \<in> set (map p_listId (todo_permissions d))) (todo_lists d) \<and>
         todo_users (snd (snd (purge now f d))) = todo_users d \<and>
         todo_permissions (snd (snd (purge now f d))) = todo_permissions d \<and>
         todo_items (snd (snd (purge now f d))) =
           filter (\<lambda>i. i_listId i \<notin> list_ids d \<or>
                       i_listId i \<in> set (map p_listId (todo_permissions d))) (todo_items d) \<and>
         filter (\<lambda>i. i_listId i \<in> set (map p_listId (todo_permissions d)))
             (todo_items (snd (snd (purge now f d)))) =
           filter (\<lambda>i. i_listId i \<in> set (map p_listId (todo_permissions d))) (todo_items d)"
proof -
  from assms have ok: "\<not> connection_fails f" "\<not> pass1_fails f" "\<not> pass2_fails f"
    by (simp_all add: purge_result split: if_splits)
  then have after: "snd (snd (purge now f d)) =
      snd (delete_orphaned_lists (snd (delete_expired_sessions now d)))"
    by (simp add: purge_db)
  have kept: "filter (\<lambda>i. i_listId i \<in> set (map p_listId (todo_permissions d)))
        (filter (\<lambda>i. i_listId i \<notin> list_ids d \<or>
                     i_listId i \<in> set (map p_listId (todo_permissions d))) (todo_items d)) =
      filter (\<lambda>i. i_listId i \<in> set (map p_listId (todo_permissions d))) (todo_items d)"
    by (auto intro!: filter_cong)
  show ?thesis
    unfolding after
    by (simp only: delete_orphaned_lists_parts delete_expired_sessions_parts kept simp_thms)
qed

text \<open>
  The run without a failure on the sample database at the sample time: session 1 and
  list 2 are deleted, and the users and the permissions are as before.
\<close>

theorem sweep_effect_witness:
  "map s_id (todo_sessions (snd (snd (purge 10000 no_faults sample_db)))) = [2, 3] \<and>
   map l_id (todo_lists (snd (snd (purge 10000 no_faults sample_db)))) = [1] \<and>
   todo_users (snd (snd (purge 10000 no_faults sample_db))) = todo_users sample_db \<and>
   todo_permissions (snd (snd (purge 10000 no_faults sample_db))) = todo_permissions sample_db \<and>
   map i_id (todo_items (snd (snd (purge 10000 no_faults sample_db)))) = [1]"
proof -
  have completed: "fst (purge 10000 no_faults sample_db) = Inr ()"
    by (simp add: purge_result no_faults_def)
  note at = sweep_effect[OF completed]
  have s: "map s_id (filter (\<lambda>s. 10000 \<le> s_expirationDate s) (todo_sessions sample_db)) = [2, 3]"
    by (simp add: sample_db_def)
  have l: "map l_id (filter (\<lambda>l. l_id l \<in> set (map p_listId (todo_permissions sample_db)))
      (todo_lists sample_db)) = [1]"
    by (simp add: sample_db_def)
  have i: "map i_id (filter (\<lambda>i. i_listId i \<notin> list_ids sample_db \<or>
      i_listId i \<in> set (map p_listId (todo_permissions sample_db))) (todo_items sample_db)) = [1]"
    by (simp add: sample_db_def list_ids_def)
  show ?thesis
    using at s l i by simp
qed

text \<open>
  Against C5 as stated: in the reachable state \<open>orphaned_db\<close> item 1 belongs to list 1,
  which has no permission row. The run of the sweep without a failure deletes list 1
  and item 1 with it, so the items are not left unchanged.
\<close>

theorem sweep_items_counterexample:
  "reachable sample_env orphaned_db \<and>
   fst (purge 1 no_faults orphaned_db) = Inr () \<and>
   map (\<lambda>it. (i_id it, i_listId it)) (todo_items orphaned_db) = [(1, 1), (2, 2)] \<and>
   map (\<lambda>it. (i_id it, i_listId it)) (todo_items (snd (snd (purge 1 no_faults orphaned_db)))) =
     [(2, 2)] \<and>
   todo_items (snd (snd (purge 1 no_faults orphaned_db))) \<noteq> todo_items orphaned_db"
proof -
  have "fst (purge 1 no_faults orphaned_db) = Inr () \<and>
      map (\<lambda>it. (i_id it, i_listId it)) (todo_items orphaned_db) = [(1, 1), (2, 2)] \<and>
      map (\<lambda>it. (i_id it, i_listId it))
        (todo_items (snd (snd (purge 1 no_faults orphaned_db)))) = [(2, 2)] \<and>
      todo_items (snd (snd (purge 1 no_faults orphaned_db))) \<noteq> todo_items orphaned_db"
    by code_simp
  with reachable_orphaned_db show ?thesis
    by simp
qed

section \<open>The item handlers stay inside the list of the path\<close>

lemma no_match_filter:
  assumes "\<forall>it \<in> set xs. \<not> P it"
  shows "filter P xs = []" and "filter (\<lambda>it. \<not> P it) xs = xs"
    and "map (\<lambda>it. if P it then g it else it) xs = xs"
  using assms by (induction xs) auto

lemma item_statements_absent:
  assumes "\<forall>it \<in> set (todo_items d). i_id it = i \<longrightarrow> i_listId it \<noteq> l"
  shows "select_item l i d = []"
    and "delete_item l i d = (0, d)"
    and "item_patch_keys b \<noteq> 0 \<Longrightarrow> update_item b l i d = Inr (0, d)"
proof -
  from assms have none: "\<forall>it \<in> set (todo_items d). \<not> (i_listId it = l \<and> i_id it = i)"
    by auto
  show "select_item l i d = []"
    by (simp add: select_item_def no_match_filter(1)[OF none])
  show "delete_item l i d = (0, d)"
    unfolding delete_item_def no_match_filter(1,2)[OF none] by simp
  show "update_item b l i d = Inr (0, d)" if "item_patch_keys b \<noteq> 0"
    unfolding update_item_def no_match_filter(1,3)[OF none] using that by simp
qed

lemma filter_map_other:
  "filter (\<lambda>it. i_listId it \<noteq> l)
       (map (\<lambda>it. if i_listId it = l \<and> P it then apply_item_patch b it else it) xs) =
     filter (\<lambda>it. i_listId it \<noteq> l) xs"
  by (induction xs) (auto simp: apply_item_patch_def)

lemma item_statements_frame:
  "filter (\<lambda>it. i_listId it \<noteq> l) (todo_items (snd (delete_item l i d))) =
     filter (\<lambda>it. i_listId it \<noteq> l) (todo_items d)"
  "update_item b l i d = Inr (n, d') \<Longrightarrow>
     filter (\<lambda>it. i_listId it \<noteq> l) (todo_items d') = filter (\<lambda>it. i_listId it \<noteq> l) (todo_items d)"
proof -
  show "filter (\<lambda>it. i_listId it \<noteq> l) (todo_items (snd (delete_item l i d))) =
     filter (\<lambda>it. i_listId it \<noteq> l) (todo_items d)"
    by (auto simp: delete_item_def intro!: filter_cong)
  assume "update_item b l i d = Inr (n, d')"
  then have "todo_items d' =
      map (\<lambda>it. if i_listId it = l \<and> i_id it = i then apply_item_patch b it else it) (todo_items d)"
    by (auto simp: update_item_def split: if_splits)
  then show "filter (\<lambda>it. i_listId it \<noteq> l) (todo_items d') =
      filter (\<lambda>it. i_listId it \<noteq> l) (todo_items d)"
    by (simp only: filter_map_other)
qed

lemma get_list_item_snd: "snd (get_list_item env now req l i d) = d"
  by (simp add: get_list_item_def awaiting_def split: sum.splits list.splits)

lemma get_list_item_found:
  assumes "get_list_item env now req l i d = (Inr (ItemFound v), d')"
  shows "\<exists>it \<in> set (todo_items d). i_listId it = l \<and> i_id it = i \<and> v = view_of it"
proof -
  from assms obtain vs where sel: "select_item l i d = v # vs"
    by (auto simp: get_list_item_def awaiting_def split: sum.splits list.splits)
  then have "v \<in> set (select_item l i d)"
    by simp
  then show ?thesis
    by (auto simp: select_item_def)
qed

lemma delete_list_item_frame:
  "filter (\<lambda>it. i_listId it \<noteq> l) (todo_items (snd (delete_list_item env now req l i d))) =
     filter (\<lambda>it. i_listId it \<noteq> l) (todo_items d)"
  by (rule delete_list_item_preserves) (simp_all add: item_statements_frame(1))

lemma put_list_item_frame:
  "filter (\<lambda>it. i_listId it \<noteq> l) (todo_items (snd (put_list_item env now req l i keys vbody d))) =
     filter (\<lambda>it. i_listId it \<noteq> l) (todo_items d)"
  by (rule put_list_item_preserves) (simp_all add: item_statements_frame(2))

lemma put_list_item_absent_snd:
  assumes "\<forall>it \<in> set (todo_items d). i_id it = i \<longrightarrow> i_listId it \<noteq> l"
  shows "snd (put_list_item env now req l i keys vbody d) = d"
proof (rule put_list_item_preserves)
  fix b n d'
  assume "update_item b l i d = Inr (n, d')"
  then show "d' = d"
    using item_statements_absent(3)[OF assms, of b]
    by (cases "item_patch_keys b = 0") (auto simp: update_item_def)
qed simp

lemma put_list_item_absent:
  assumes "\<forall>it \<in> set (todo_items d). i_id it = i \<longrightarrow> i_listId it \<noteq> l"
    and "authenticate env now req d Required = Inr who"
    and "checkPermissions d (a_userId who) l Write = Inr held"
    and "keys \<noteq> []" and "unknown_state (iu_state body) = None"
    and "iu_name body \<noteq> None \<or> iu_description body \<noteq> None \<or> iu_state body \<noteq> None"
  shows "put_list_item env now req l i keys (Inr body) d = (Inl missing_item, d)"
proof -
  let ?patch = "\<lparr>ip_name = iu_name body, ip_description = iu_description body,
      ip_state = Option.bind (iu_state body) state_of\<rparr>"
  from assms(5,6) have "item_patch_keys ?patch \<noteq> 0"
    by (auto simp: item_patch_keys_def unknown_state_def split: option.splits if_splits)
  then have "update_item ?patch l i d = Inr (0, d)"
    by (rule item_statements_absent(3)[OF assms(1)])
  then show ?thesis
    using assms(2-5) by (simp add: put_list_item_def awaiting_def)
qed

text \<open>
  C9 (as amended). The item handlers touch only item rows of the list in the request
  path: after \<open>PUT\<close> and \<open>DELETE /list/:listId/item/:itemId\<close> the items of every other list
  are as before, and an item that \<open>GET\<close> returns is a row of that list with that id.
  When every row that the item id names belongs to a different list, none of the three
  handlers changes the database and \<open>GET\<close> returns no item; for a caller that passes the
  authentication and the permission check, \<open>GET\<close> and \<open>DELETE\<close> throw the ClientError
  missing-item, and so does \<open>PUT\<close> when the body that was sent has a key and validates to
  a body with at least one field and no unknown state.
\<close>

theorem item_handlers_scoped_to_list:
  "filter (\<lambda>it. i_listId it \<noteq> l) (todo_items (snd (put_list_item env now req l i keys vbody d))) =
     filter (\<lambda>it. i_listId it \<noteq> l) (todo_items d) \<and>
   filter (\<lambda>it. i_listId it \<noteq> l) (todo_items (snd (delete_list_item env now req l i d))) =
     filter (\<lambda>it. i_listId it \<noteq> l) (todo_items d) \<and>
   snd (get_list_item env now req l i d) = d \<and>
   (\<forall>v d'. get_list_item env now req l i d = (Inr (ItemFound v), d') \<longrightarrow>
      (\<exists>it \<in> set (todo_items d). i_listId it = l \<and> i_id it = i \<and> v = view_of it)) \<and>
   ((\<forall>it \<in> set (todo_items d). i_id it = i \<longrightarrow> i_listId it \<noteq> l) \<longrightarrow>
      snd (put_list_item env now req l i keys vbody d) = d \<and>
      snd (delete_list_item env now req l i d) = d \<and>
      (\<forall>v. fst (get_list_item env now req l i d) \<noteq> Inr (ItemFound v)) \<and>
      (\<forall>who held.
         authenticate env now req d Optional = Inr who \<and>
         checkPermissions d (a_userId who) l Read = Inr held \<longrightarrow>
           get_list_item env now req l i d = (Inl missing_item, d)) \<and>
      (\<forall>who held.
         authenticate env now req d Optional = Inr who \<and>
         checkPermissions d (a_userId who) l Write = Inr held \<longrightarrow>
           delete_list_item env now req l i d = (Inl missing_item, d)) \<and>
      (\<forall>who held body.
         authenticate env now req d Required = Inr who \<and>
         checkPermissions d (a_userId who) l Write = Inr held \<and>
         keys \<noteq> [] \<and> vbody = Inr body \<and> unknown_state (iu_state body) = None \<and>
         (iu_name body \<noteq> None \<or> iu_description body \<noteq> None \<or> iu_state body \<noteq> None) \<longrightarrow>
           put_list_item env now req l i keys vbody d = (Inl missing_item, d)))"
proof (intro conjI impI allI)
  assume other: "\<forall>it \<in> set (todo_items d). i_id it = i \<longrightarrow> i_listId it \<noteq> l"
  show "snd (put_list_item env now req l i keys vbody d) = d"
    by (rule put_list_item_absent_snd[OF other])
  show "snd (delete_list_item env now req l i d) = d"
    by (rule delete_list_item_preserves) (simp_all add: item_statements_absent(2)[OF other])
  show "fst (get_list_item env now req l i d) \<noteq> Inr (ItemFound v)" for v
    by (simp add: get_list_item_def awaiting_def item_statements_absent(1)[OF other]
        split: sum.splits)
  show "get_list_item env now req l i d = (Inl missing_item, d)"
    if "authenticate env now req d Optional = Inr who \<and>
        checkPermissions d (a_userId who) l Read = Inr held" for who held
    using that
    by (simp add: get_list_item_def awaiting_def item_statements_absent(1)[OF other])
  show "delete_list_item env now req l i d = (Inl missing_item, d)"
    if "authenticate env now req d Optional = Inr who \<and>
        checkPermissions d (a_userId who) l Write = Inr held" for who held
    using that
    by (simp add: delete_list_item_def awaiting_def item_statements_absent(2)[OF other])
  show "put_list_item env now req l i keys vbody d = (Inl missing_item, d)"
    if "authenticate env now req d Required = Inr who \<and>
         checkPermissions d (a_userId who) l Write = Inr held \<and>
         keys \<noteq> [] \<and> vbody = Inr body \<and> unknown_state (iu_state body) = None \<and>
         (iu_name body \<noteq> None \<or> iu_description body \<noteq> None \<or> iu_state body \<noteq> None)"
    for who held body
    using that put_list_item_absent[OF other, of env now req who held keys body]
    by blast
next
  show "filter (\<lambda>it. i_listId it \<noteq> l) (todo_items (snd (put_list_item env now req l i keys vbody d))) =
     filter (\<lambda>it. i_listId it \<noteq> l) (todo_items d)"
    by (rule put_list_item_frame)
next
  show "filter (\<lambda>it. i_listId it \<noteq> l) (todo_items (snd (delete_list_item env now req l i d))) =
     filter (\<lambda>it. i_listId it \<noteq> l) (todo_items d)"
    by (rule delete_list_item_frame)
next
  show "snd (get_list_item env now req l i d) = d"
    by (rule get_list_item_snd)
next
  fix v d'
  assume "get_list_item env now req l i d = (Inr (ItemFound v), d')"
  then show "\<exists>it \<in> set (todo_items d). i_listId it = l \<and> i_id it = i \<and> v = view_of it"
    by (rule get_list_item_found)
qed

text \<open>
  On the sample database item 2 belongs to list 2. User 1, owner of list 1, addresses it
  as an item of list 1: \<open>GET\<close> and \<open>DELETE\<close> throw missing-item, and so does a \<open>PUT\<close> that
  sets the state to complete; the database stays as it is.
\<close>

theorem item_handlers_scoped_to_list_witness:
  "get_list_item sample_env 10000 by_user1 1 2 sample_db = (Inl missing_item, sample_db) \<and>
   delete_list_item sample_env 10000 by_user1 1 2 sample_db = (Inl missing_item, sample_db) \<and>
   put_list_item sample_env 10000 by_user1 1 2 [''state'']
       (Inr \<lparr>iu_name = None, iu_description = None, iu_state = Some ''complete''\<rparr>) sample_db =
     (Inl missing_item, sample_db)"
proof -
  let ?body = "\<lparr>iu_name = None, iu_description = None, iu_state = Some ''complete''\<rparr>"
  have other: "\<forall>it \<in> set (todo_items sample_db). i_id it = 2 \<longrightarrow> i_listId it \<noteq> 1"
    by (simp add: sample_db_def)
  have held: "checkPermissions sample_db (a_userId \<lparr>a_userId = Some 1, a_sessionId = Some 2\<rparr>) 1 m
      = Inr Owner" for m
    using sample_user1_owner[of m] by simp
  have body: "[''state''] \<noteq> [] \<and> Inr ?body = Inr ?body \<and> unknown_state (iu_state ?body) = None \<and>
      (iu_name ?body \<noteq> None \<or> iu_description ?body \<noteq> None \<or> iu_state ?body \<noteq> None)"
    by (simp add: unknown_state_def state_of_def)
  note at = item_handlers_scoped_to_list[of 1 sample_env 10000 by_user1 2 "[''state'']"
      "Inr ?body" sample_db, THEN conjunct2, THEN conjunct2, THEN conjunct2, THEN conjunct2,
      THEN mp, OF other]
  note get = at[THEN conjunct2, THEN conjunct2, THEN conjunct2, THEN conjunct1, rule_format,
      OF conjI[OF sample_by_user1(2) held]]
  note del = at[THEN conjunct2, THEN conjunct2, THEN conjunct2, THEN conjunct2, THEN conjunct1,
      rule_format, OF conjI[OF sample_by_user1(2) held]]
  note put = at[THEN conjunct2, THEN conjunct2, THEN conjunct2, THEN conjunct2, THEN conjunct2,
      rule_format, OF conjI[OF sample_by_user1(1) conjI[OF held body]]]
  from get del put show ?thesis
    by simp
qed

text \<open>
  Against C9 as stated: in the reachable state \<open>busy_db\<close> item 2 belongs to list 2, and
  johndoe owns list 1. His \<open>PUT\<close> for item 2 under list 1 with an empty body returns
  normally, not with missing-item.
\<close>

theorem put_item_empty_body_counterexample:
  "reachable sample_env busy_db \<and>
   map (\<lambda>it. (i_id it, i_listId it)) (todo_items busy_db) = [(1, 1), (2, 2)] \<and>
   checkPermissions busy_db (Some 1) 1 Write = Inr Owner \<and>
   put_list_item sample_env 1 by_session1 1 2 [] (Inr empty_item_update) busy_db =
     (Inr Undefined, busy_db)"
proof -
  have "map (\<lambda>it. (i_id it, i_listId it)) (todo_items busy_db) = [(1, 1), (2, 2)] \<and>
      checkPermissions busy_db (Some 1) 1 Write = Inr Owner \<and>
      put_list_item sample_env 1 by_session1 1 2 [] (Inr empty_item_update) busy_db =
        (Inr Undefined, busy_db)"
    by code_simp
  with reachable_busy_db show ?thesis
    by simp
qed

section \<open>Updates without a recognised field\<close>

lemma put_user_empty_body:
  assumes "authenticate env now req d Required = Inr who" and "user_body_keys body = 0"
  shows "put_user env now req (Inr body) salt d = (Inr Undefined, d)"
  using assms by (simp add: put_user_def awaiting_def)

lemma put_list_empty_body:
  assumes "authenticate env now req d Optional = Inr who"
    and "checkPermissions d (a_userId who) l Write = Inr held"
  shows "put_list env now req l (Inr None) d = (Inr Undefined, d)"
  using assms by (simp add: put_list_def awaiting_def)

lemma put_list_item_no_keys:
  assumes "authenticate env now req d Required = Inr who"
    and "checkPermissions d (a_userId who) l Write = Inr held"
  shows "put_list_item env now req l i [] vbody d = (Inr Undefined, d)"
  using assms by (simp add: put_list_item_def awaiting_def)

lemma put_list_item_empty_validated:
  assumes "authenticate env now req d Required = Inr who"
    and "checkPermissions d (a_userId who) l Write = Inr held"
    and "keys \<noteq> []"
  shows "put_list_item env now req l i keys (Inr empty_item_update) d =
           (Inl (SqlError ER_PARSE_ERROR), d)"
  using assms
  by (simp add: put_list_item_def awaiting_def empty_item_update_def unknown_state_def
      update_item_def item_patch_keys_def)

text \<open>
  C10. \<open>PUT /user\<close> and \<open>PUT /list/:listId\<close> test the validated body and return without a
  statement when it has no field (\<open>put_user_empty_body\<close>, \<open>put_list_empty_body\<close>).
  \<open>PUT /list/:listId/item/:itemId\<close> tests the body as it was sent, before the validation:
  it returns without a statement only when that body has no key
  (\<open>put_list_item_no_keys\<close>). In the reachable state \<open>busy_db\<close> johndoe, owner of list 1,
  sends for item 1 of list 1 a body with the one key done, which validates to a body
  without a field: the handler goes on to the \<open>UPDATE\<close> with an empty \<open>SET\<close> and throws the
  error of the storage, instead of returning normally.
\<close>

theorem put_list_item_unrecognised_body:
  "reachable sample_env busy_db \<and>
   map (\<lambda>it. (i_id it, i_listId it)) (todo_items busy_db) = [(1, 1), (2, 2)] \<and>
   checkPermissions busy_db (Some 1) 1 Write = Inr Owner \<and>
   put_list_item sample_env 1 by_session1 1 1 [''done''] (Inr empty_item_update) busy_db =
     (Inl (SqlError ER_PARSE_ERROR), busy_db)"
proof -
  have "map (\<lambda>it. (i_id it, i_listId it)) (todo_items busy_db) = [(1, 1), (2, 2)] \<and>
      checkPermissions busy_db (Some 1) 1 Write = Inr Owner \<and>
      put_list_item sample_env 1 by_session1 1 1 [''done''] (Inr empty_item_update) busy_db =
        (Inl (SqlError ER_PARSE_ERROR), busy_db)"
    by code_simp
  with reachable_busy_db show ?thesis
    by simp
qed

section \<open>One permission row for each user and list\<close>

lemma key_inv_init: "key_inv init"
  by (simp add: key_inv_def init_def)

lemma insert_user_inv: "insert_user a b c e f d = Inr (n, d') \<Longrightarrow> key_inv d \<Longrightarrow> key_inv d'"
  by (auto simp: insert_user_def key_inv_def split: if_splits)

lemma insert_session_inv: "insert_session u t d = Inr (n, d') \<Longrightarrow> key_inv d \<Longrightarrow> key_inv d'"
  by (auto simp: insert_session_def key_inv_def split: if_splits option.splits)

lemma update_user_inv: "update_user b u d = Inr (n, d') \<Longrightarrow> key_inv d \<Longrightarrow> key_inv d'"
  by (auto simp: update_user_def key_inv_def split: if_splits)

lemma delete_user_row_inv: "key_inv d \<Longrightarrow> key_inv (snd (delete_user_row u d))"
  by (auto simp: delete_user_row_def key_inv_def Let_def distinct_map_filter)

lemma delete_session_inv: "key_inv d \<Longrightarrow> key_inv (snd (delete_session s d))"
  by (simp add: delete_session_def key_inv_def)

lemma update_list_inv: "update_list nm l d = Inr (n, d') \<Longrightarrow> key_inv d \<Longrightarrow> key_inv d'"
  by (auto simp: update_list_def key_inv_def split: if_splits)

lemma delete_lists_where_inv: "key_inv d \<Longrightarrow> key_inv (snd (delete_lists_where c d))"
  by (auto simp: delete_lists_where_def key_inv_def Let_def distinct_map_filter)

lemma insert_list_permission_inv:
  assumes "key_inv d" and "insert_list nm d = (l, d1)" and "insert_permission u l r d1 = Inr d2"
  shows "key_inv d2"
proof -
  from assms(2) have l: "l = lists_auto d"
    and d1: "d1 = d\<lparr>todo_lists := todo_lists d @ [\<lparr>l_id = lists_auto d, l_name = nm\<rparr>],
        lists_auto := Suc (lists_auto d)\<rparr>"
    by (auto simp: insert_list_def)
  from assms(3) have d2: "d2 = d1\<lparr>todo_permissions := todo_permissions d1 @
        [\<lparr>p_id = permissions_auto d1, p_userId = u, p_listId = l, p_role = r\<rparr>],
      permissions_auto := Suc (permissions_auto d1)\<rparr>"
    by (auto simp: insert_permission_def split: if_splits)
  from assms(1) have fresh: "(u, l) \<notin> set (map perm_key (todo_permissions d))"
    unfolding l by (auto simp: key_inv_def perm_key_def)
  show ?thesis
    using assms(1) fresh unfolding d2 d1 l
    by (auto simp: key_inv_def perm_key_def less_Suc_eq)
qed

lemma upsert_permission_inv:
  assumes "key_inv d" and "upsert_permission u l r d = Inr d'"
  shows "key_inv d'"
proof (cases "\<exists>p \<in> set (todo_permissions d). p_userId p = Some u \<and> p_listId p = l")
  case True
  with assms(2) have d': "d' = d\<lparr>todo_permissions :=
      map (\<lambda>p. if p_userId p = Some u \<and> p_listId p = l then p\<lparr>p_role := r\<rparr> else p)
        (todo_permissions d)\<rparr>"
    by (simp add: upsert_permission_def)
  have keys: "perm_key \<circ> (\<lambda>p. if p_userId p = Some u \<and> p_listId p = l
      then p\<lparr>p_role := r\<rparr> else p) = perm_key"
    by (auto simp: fun_eq_iff perm_key_def)
  show ?thesis
    using assms(1) unfolding d' by (auto simp: key_inv_def keys)
next
  case False
  with assms(2) have ins: "l \<in> list_ids d"
    and d': "d' = d\<lparr>todo_permissions := todo_permissions d @
        [\<lparr>p_id = permissions_auto d, p_userId = Some u, p_listId = l, p_role = r\<rparr>],
      permissions_auto := Suc (permissions_auto d)\<rparr>"
    by (auto simp: upsert_permission_def insert_permission_def split: if_splits)
  from False have fresh: "(Some u, l) \<notin> set (map perm_key (todo_permissions d))"
    by (auto simp: perm_key_def)
  from ins assms(1) have "l < lists_auto d"
    by (auto simp: key_inv_def list_ids_def)
  then show ?thesis
    using assms(1) fresh unfolding d' by (auto simp: key_inv_def perm_key_def)
qed

lemma delete_permission_inv: "key_inv d \<Longrightarrow> key_inv (snd (delete_permission u l d))"
  by (auto simp: delete_permission_def key_inv_def distinct_map_filter)

lemma insert_item_inv: "insert_item a b c l d = Inr (n, d') \<Longrightarrow> key_inv d \<Longrightarrow> key_inv d'"
  by (auto simp: insert_item_def key_inv_def split: if_splits)

lemma update_item_inv: "update_item b l i d = Inr (n, d') \<Longrightarrow> key_inv d \<Longrightarrow> key_inv d'"
  by (auto simp: update_item_def key_inv_def split: if_splits)

lemma delete_item_inv: "key_inv d \<Longrightarrow> key_inv (snd (delete_item l i d))"
  by (simp add: delete_item_def key_inv_def)

lemma delete_expired_sessions_inv: "key_inv d \<Longrightarrow> key_inv (snd (delete_expired_sessions now d))"
  by (simp add: delete_expired_sessions_def key_inv_def)

lemma delete_orphaned_lists_inv: "key_inv d \<Longrightarrow> key_inv (snd (delete_orphaned_lists d))"
  unfolding delete_orphaned_lists_def by (rule delete_lists_where_inv)

lemma delete_list_row_inv: "key_inv d \<Longrightarrow> key_inv (snd (delete_list_row l d))"
  unfolding delete_list_row_def by (rule delete_lists_where_inv)

lemma delete_user_row_eq_inv:
  "delete_user_row u d = (n, d') \<Longrightarrow> key_inv d \<Longrightarrow> key_inv d'"
  using delete_user_row_inv[of d u] by simp

lemma delete_list_row_eq_inv:
  "delete_list_row l d = (n, d') \<Longrightarrow> key_inv d \<Longrightarrow> key_inv d'"
  using delete_list_row_inv[of d l] by simp

lemma post_user_inv:
  assumes base: "key_inv d"
  shows "key_inv (snd (post_user env now vbody salt d))"
  unfolding post_user_def Let_def
  apply (rule awaiting_snd[of key_inv d, OF base])
  using base
  apply (auto split: sum.splits dest: insert_user_inv insert_session_inv)
  done

lemma put_user_inv:
  assumes base: "key_inv d"
  shows "key_inv (snd (put_user env now req vbody salt d))"
  unfolding put_user_def Let_def
  apply (rule awaiting_snd[of key_inv d, OF base])
  apply (rule awaiting_snd[of key_inv d, OF base])
  using base
  apply (auto split: sum.splits dest: update_user_inv)
  done

lemma delete_user_inv:
  assumes base: "key_inv d"
  shows "key_inv (snd (delete_user env now req d))"
  unfolding delete_user_def
  apply (rule awaiting_snd[of key_inv d, OF base])
  using base
  apply (auto split: prod.splits dest: delete_user_row_eq_inv)
  done

lemma post_user_login_inv:
  assumes base: "key_inv d"
  shows "key_inv (snd (post_user_login env now req d))"
  unfolding post_user_login_def Let_def
  apply (rule awaiting_snd[of key_inv d, OF base])
  using base
  apply (auto split: sum.splits dest: insert_session_inv)
  done

lemma post_user_logout_inv:
  assumes base: "key_inv d"
  shows "key_inv (snd (post_user_logout env now req d))"
  unfolding post_user_logout_def
  apply (rule awaiting_snd[of key_inv d, OF base])
  using base
  apply (auto split: option.splits intro: delete_session_inv)
  done

lemma post_list_inv:
  assumes base: "key_inv d"
  shows "key_inv (snd (post_list env now req vbody d))"
  unfolding post_list_def
  apply (rule awaiting_snd[of key_inv d, OF base])
  apply (rule awaiting_snd[of key_inv d, OF base])
  using base
  apply (auto split: sum.splits prod.splits dest: insert_list_permission_inv)
  apply (auto simp: insert_list_def key_inv_def less_Suc_eq)
  done

lemma put_list_inv:
  assumes base: "key_inv d"
  shows "key_inv (snd (put_list env now req l vbody d))"
  unfolding put_list_def
  apply (rule awaiting_snd[of key_inv d, OF base])
  apply (rule awaiting_snd[of key_inv d, OF base])
  apply (rule awaiting_snd[of key_inv d, OF base])
  using base
  apply (auto split: sum.splits dest: update_list_inv)
  done

lemma delete_list_inv:
  assumes base: "key_inv d"
  shows "key_inv (snd (delete_list env now req l d))"
  unfolding delete_list_def
  apply (rule awaiting_snd[of key_inv d, OF base])
  apply (rule awaiting_snd[of key_inv d, OF base])
  using base
  apply (auto split: prod.splits dest: delete_list_row_eq_inv)
  done

lemma put_list_user_inv:
  assumes base: "key_inv d"
  shows "key_inv (snd (put_list_user env now req l u vbody d))"
  unfolding put_list_user_def
  apply (rule awaiting_snd[of key_inv d, OF base])
  apply (rule awaiting_snd[of key_inv d, OF base])
  apply (rule awaiting_snd[of key_inv d, OF base])
  using base
  apply (auto split: sum.splits option.splits dest: upsert_permission_inv)
  done

lemma delete_list_user_inv:
  assumes base: "key_inv d"
  shows "key_inv (snd (delete_list_user env now req l u d))"
  unfolding delete_list_user_def
  apply (rule awaiting_snd[of key_inv d, OF base])
  apply (rule awaiting_snd[of key_inv d, OF base])
  using delete_permission_inv[OF base, of u l]
  apply simp
  done

lemma post_list_item_inv:
  assumes base: "key_inv d"
  shows "key_inv (snd (post_list_item env now req l vbody d))"
  unfolding post_list_item_def
  apply (rule awaiting_snd[of key_inv d, OF base])
  apply (rule awaiting_snd[of key_inv d, OF base])
  apply (rule awaiting_snd[of key_inv d, OF base])
  using base
  apply (auto split: sum.splits option.splits dest: insert_item_inv)
  done

lemma put_list_item_inv:
  assumes base: "key_inv d"
  shows "key_inv (snd (put_list_item env now req l i keys vbody d))"
  using base by (rule put_list_item_preserves) (rule update_item_inv[OF _ base])

lemma delete_list_item_inv:
  assumes base: "key_inv d"
  shows "key_inv (snd (delete_list_item env now req l i d))"
  using base by (rule delete_list_item_preserves) (rule delete_item_inv[OF base])

lemma purge_tick_inv:
  assumes base: "key_inv d"
  shows "key_inv (snd (snd (purge_tick now f d)))"
  unfolding purge_tick_parts(3) purge_db
  using base by (simp add: delete_expired_sessions_inv delete_orphaned_lists_inv)

lemma step_inv: "key_inv d \<Longrightarrow> key_inv (step env now c d)"
  by (cases c)
    (simp_all add: post_user_inv put_user_inv delete_user_inv post_user_login_inv
      post_user_logout_inv post_list_inv put_list_inv delete_list_inv put_list_user_inv
      delete_list_user_inv post_list_item_inv put_list_item_inv delete_list_item_inv
      purge_tick_inv)

lemma reachable_key_inv: "reachable env d \<Longrightarrow> key_inv d"
  by (induction rule: reachable.induct) (simp_all add: key_inv_init step_inv)

lemma distinct_key_filter:
  assumes "distinct (map f xs)"
  shows "length (filter (\<lambda>x. f x = k) xs) \<le> 1"
  using assms
proof (induction xs)
  case Nil
  then show ?case by simp
next
  case (Cons x xs)
  show ?case
  proof (cases "f x = k")
    case True
    with Cons.prems have "\<forall>y \<in> set xs. f y \<noteq> k"
      by (metis distinct.simps(2) image_eqI list.simps(9) set_map)
    then have "filter (\<lambda>x. f x = k) xs = []"
      by (simp add: filter_empty_conv)
    with True show ?thesis by simp
  next
    case False
    with Cons show ?thesis by simp
  qed
qed

lemma single_key_row:
  assumes "length (filter P xs) \<le> 1" and "p \<in> set xs" and "P p"
  shows "filter P xs = [p]"
proof -
  from assms(2,3) have "p \<in> set (filter P xs)"
    by simp
  with assms(1) show ?thesis
    by (cases "filter P xs") auto
qed

lemma upsert_permission_others:
  assumes "upsert_permission t l r d = Inr d'"
  shows "filter (\<lambda>p. perm_key p \<noteq> (Some t, l)) (todo_permissions d') =
         filter (\<lambda>p. perm_key p \<noteq> (Some t, l)) (todo_permissions d)"
proof (cases "\<exists>p \<in> set (todo_permissions d). p_userId p = Some t \<and> p_listId p = l")
  case True
  with assms have d': "todo_permissions d' =
      map (\<lambda>p. if p_userId p = Some t \<and> p_listId p = l then p\<lparr>p_role := r\<rparr> else p)
        (todo_permissions d)"
    by (auto simp: upsert_permission_def)
  have "filter (\<lambda>p. perm_key p \<noteq> (Some t, l))
      (map (\<lambda>p. if p_userId p = Some t \<and> p_listId p = l then p\<lparr>p_role := r\<rparr> else p) xs) =
      filter (\<lambda>p. perm_key p \<noteq> (Some t, l)) xs" for xs
    by (induction xs) (auto simp: perm_key_def)
  then show ?thesis
    by (simp only: d')
next
  case False
  with assms have "todo_permissions d' = todo_permissions d @
      [\<lparr>p_id = permissions_auto d, p_userId = Some t, p_listId = l, p_role = r\<rparr>]"
    by (auto simp: upsert_permission_def insert_permission_def split: if_splits)
  then show ?thesis
    by (simp add: perm_key_def)
qed

lemma upsert_permission_again:
  assumes "\<forall>p \<in> set (todo_permissions d). perm_key p = (Some t, l) \<longrightarrow> p_role p = r"
    and "\<exists>p \<in> set (todo_permissions d). perm_key p = (Some t, l)"
    and "upsert_permission t l r d = Inr d'"
  shows "todo_permissions d' = todo_permissions d"
proof -
  from assms(2) have ex: "\<exists>p \<in> set (todo_permissions d). p_userId p = Some t \<and> p_listId p = l"
    by (auto simp: perm_key_def)
  with assms(3) have d': "todo_permissions d' =
      map (\<lambda>p. if p_userId p = Some t \<and> p_listId p = l then p\<lparr>p_role := r\<rparr> else p)
        (todo_permissions d)"
    by (auto simp: upsert_permission_def)
  have "map (\<lambda>p. if p_userId p = Some t \<and> p_listId p = l then p\<lparr>p_role := r\<rparr> else p) xs = xs"
    if "\<forall>p \<in> set xs. perm_key p = (Some t, l) \<longrightarrow> p_role p = r" for xs
    using that by (induction xs) (auto simp: perm_key_def)
  with assms(1) show ?thesis
    unfolding d' by blast
qed

lemma put_list_user_gated:
  assumes "authenticate env now req d Required = Inr who"
    and "checkPermissions d (a_userId who) l Owner = Inr held"
    and "role_of rs = Some r"
  shows "put_list_user env now req l t (Inr rs) d =
           (case upsert_permission t l r d of
              Inl err \<Rightarrow> (Inl (SqlError err), d)
            | Inr d1 \<Rightarrow> (Inr Undefined, d1))"
  using assms by (simp add: put_list_user_def awaiting_def)

lemma replace_only_row:
  assumes "distinct (map perm_key xs)" and "p \<in> set xs" and "perm_key p = (Some t, l)"
  shows "map (\<lambda>q. if p_userId q = Some t \<and> p_listId q = l then q\<lparr>p_role := r\<rparr> else q) xs =
         map (\<lambda>q. if q = p then q\<lparr>p_role := r\<rparr> else q) xs"
proof (rule map_cong[OF refl])
  fix q
  assume q: "q \<in> set xs"
  from assms(1) have "inj_on perm_key (set xs)"
    by (simp add: distinct_map)
  with q assms(2,3) have "perm_key q = (Some t, l) \<longleftrightarrow> q = p"
    by (metis inj_onD)
  then show "(if p_userId q = Some t \<and> p_listId q = l then q\<lparr>p_role := r\<rparr> else q) =
      (if q = p then q\<lparr>p_role := r\<rparr> else q)"
    by (auto simp: perm_key_def)
qed

lemma upsert_permission_existing:
  assumes "distinct (map perm_key (todo_permissions d))"
    and "p \<in> set (todo_permissions d)" and "perm_key p = (Some t, l)"
  shows "upsert_permission t l r d =
           Inr (d\<lparr>todo_permissions :=
                  map (\<lambda>q. if q = p then q\<lparr>p_role := r\<rparr> else q) (todo_permissions d)\<rparr>)"
proof -
  from assms(2,3) have "\<exists>q \<in> set (todo_permissions d). p_userId q = Some t \<and> p_listId q = l"
    by (auto simp: perm_key_def)
  then show ?thesis
    by (simp add: upsert_permission_def replace_only_row[OF assms])
qed

lemma upsert_permission_new:
  assumes "(Some t, l) \<notin> set (map perm_key (todo_permissions d))"
    and "t \<in> user_ids d" and "l \<in> list_ids d"
  shows "upsert_permission t l r d =
           Inr (d\<lparr>todo_permissions := todo_permissions d @
                  [\<lparr>p_id = permissions_auto d, p_userId = Some t, p_listId = l, p_role = r\<rparr>],
                permissions_auto := Suc (permissions_auto d)\<rparr>)"
proof -
  from assms(1) have "\<not> (\<exists>q \<in> set (todo_permissions d). p_userId q = Some t \<and> p_listId q = l)"
    by (force simp: perm_key_def)
  then show ?thesis
    using assms(2,3) by (auto simp: upsert_permission_def insert_permission_def)
qed

text \<open>
  C2. In every state that the handlers and the sweep reach from the empty database, no
  two permission rows have the same (userId, listId), the anonymous key (userId
  \<open>NULL\<close>) included: for each pair at most one row exists. A grant through
  \<open>PUT /list/:listId/user/:userId\<close> that succeeds in such a state leaves exactly one row
  for the pair, with the role granted, and every row of another pair as it was; a
  repetition of the grant with the same arguments leaves the permission table as the
  first grant left it. The grant is an upsert: for a caller that is authenticated and
  holds owner on the list, and a role among owner, write and read, it returns normally;
  when a row for the pair exists, the database it leaves differs only in the role of
  that row, which is the role granted, and when none exists (and the user and the list
  do), the one new row for the pair is added at the end of the table.
\<close>

theorem one_permission_per_user_and_list:
  assumes "reachable env d"
  shows "distinct (map perm_key (todo_permissions d)) \<and>
         (\<forall>u l. length (filter (\<lambda>p. perm_key p = (u, l)) (todo_permissions d)) \<le> 1) \<and>
         (\<forall>now req l t rs rep d1.
            put_list_user env now req l t (Inr rs) d = (Inr rep, d1) \<longrightarrow>
              (\<exists>p. filter (\<lambda>p. perm_key p = (Some t, l)) (todo_permissions d1) = [p] \<and>
                   role_of rs = Some (p_role p)) \<and>
              filter (\<lambda>p. perm_key p \<noteq> (Some t, l)) (todo_permissions d1) =
                filter (\<lambda>p. perm_key p \<noteq> (Some t, l)) (todo_permissions d) \<and>
              (\<forall>now' req'.
                 todo_permissions (snd (put_list_user env now' req' l t (Inr rs) d1)) =
                   todo_permissions d1)) \<and>
         (\<forall>now req l t rs r who held p.
            authenticate env now req d Required = Inr who \<longrightarrow>
            checkPermissions d (a_userId who) l Owner = Inr held \<longrightarrow>
            role_of rs = Some r \<longrightarrow>
            p \<in> set (todo_permissions d) \<longrightarrow> perm_key p = (Some t, l) \<longrightarrow>
              put_list_user env now req l t (Inr rs) d =
                (Inr Undefined,
                 d\<lparr>todo_permissions :=
                     map (\<lambda>q. if q = p then q\<lparr>p_role := r\<rparr> else q) (todo_permissions d)\<rparr>)) \<and>
         (\<forall>now req l t rs r who held.
            authenticate env now req d Required = Inr who \<longrightarrow>
            checkPermissions d (a_userId who) l Owner = Inr held \<longrightarrow>
            role_of rs = Some r \<longrightarrow>
            (Some t, l) \<notin> set (map perm_key (todo_permissions d)) \<longrightarrow>
            t \<in> user_ids d \<longrightarrow> l \<in> list_ids d \<longrightarrow>
              put_list_user env now req l t (Inr rs) d =
                (Inr Undefined,
                 d\<lparr>todo_permissions := todo_permissions d @
                     [\<lparr>p_id = permissions_auto d, p_userId = Some t, p_listId = l, p_role = r\<rparr>],
                   permissions_auto := Suc (permissions_auto d)\<rparr>))"
proof (intro conjI allI impI)
  from assms have inv: "key_inv d"
    by (rule reachable_key_inv)
  then show dist: "distinct (map perm_key (todo_permissions d))"
    by (simp add: key_inv_def)
  show "length (filter (\<lambda>p. perm_key p = (u, l)) (todo_permissions d)) \<le> 1" for u l
    by (rule distinct_key_filter[OF dist])
  {
    fix now req l t rs r who held p
    assume gates: "authenticate env now req d Required = Inr who"
      "checkPermissions d (a_userId who) l Owner = Inr held" "role_of rs = Some r"
      and row: "p \<in> set (todo_permissions d)" "perm_key p = (Some t, l)"
    show "put_list_user env now req l t (Inr rs) d =
        (Inr Undefined,
         d\<lparr>todo_permissions :=
             map (\<lambda>q. if q = p then q\<lparr>p_role := r\<rparr> else q) (todo_permissions d)\<rparr>)"
      unfolding put_list_user_gated[OF gates] upsert_permission_existing[OF dist row]
      by simp
  }
  {
    fix now req l t rs r who held
    assume gates: "authenticate env now req d Required = Inr who"
      "checkPermissions d (a_userId who) l Owner = Inr held" "role_of rs = Some r"
      and new: "(Some t, l) \<notin> set (map perm_key (todo_permissions d))"
      "t \<in> user_ids d" "l \<in> list_ids d"
    show "put_list_user env now req l t (Inr rs) d =
        (Inr Undefined,
         d\<lparr>todo_permissions := todo_permissions d @
             [\<lparr>p_id = permissions_auto d, p_userId = Some t, p_listId = l, p_role = r\<rparr>],
           permissions_auto := Suc (permissions_auto d)\<rparr>)"
      unfolding put_list_user_gated[OF gates] upsert_permission_new[OF new]
      by simp
  }
  fix now req l t rs rep d1
  assume run: "put_list_user env now req l t (Inr rs) d = (Inr rep, d1)"
  then obtain r where r: "role_of rs = Some r" and ups: "upsert_permission t l r d = Inr d1"
    using put_list_user_Inr by blast
  from upsert_permission_inv[OF inv ups] have "distinct (map perm_key (todo_permissions d1))"
    by (simp add: key_inv_def)
  then have le1: "length (filter (\<lambda>p. perm_key p = (Some t, l)) (todo_permissions d1)) \<le> 1"
    by (rule distinct_key_filter)
  from lookup_after_upsert[OF ups] obtain p where
    p: "lookup_permission d1 (Some t) l = Some p" "p_role p = r"
    by blast
  from lookup_permission_Some[OF p(1)] have
    row: "p \<in> set (todo_permissions d1)" "perm_key p = (Some t, l)"
    by (simp_all add: perm_key_def)
  have one: "filter (\<lambda>p. perm_key p = (Some t, l)) (todo_permissions d1) = [p]"
    using le1 row by (rule single_key_row)
  then show "\<exists>p. filter (\<lambda>p. perm_key p = (Some t, l)) (todo_permissions d1) = [p] \<and>
      role_of rs = Some (p_role p)"
    using r p(2) by blast
  show "filter (\<lambda>p. perm_key p \<noteq> (Some t, l)) (todo_permissions d1) =
      filter (\<lambda>p. perm_key p \<noteq> (Some t, l)) (todo_permissions d)"
    by (rule upsert_permission_others[OF ups])
  have all_r: "\<forall>q \<in> set (todo_permissions d1). perm_key q = (Some t, l) \<longrightarrow> p_role q = r"
  proof (intro ballI impI)
    fix q
    assume "q \<in> set (todo_permissions d1)" "perm_key q = (Some t, l)"
    then have "q \<in> set (filter (\<lambda>p. perm_key p = (Some t, l)) (todo_permissions d1))"
      by simp
    then show "p_role q = r"
      unfolding one using p(2) by simp
  qed
  have ex: "\<exists>q \<in> set (todo_permissions d1). perm_key q = (Some t, l)"
    using row by blast
  show "todo_permissions (snd (put_list_user env now' req' l t (Inr rs) d1)) =
      todo_permissions d1" for now' req'
  proof (rule put_list_user_preserves)
    fix r' d'
    assume "role_of rs = Some r'" "upsert_permission t l r' d1 = Inr d'"
    with r have "upsert_permission t l r d1 = Inr d'"
      by simp
    then show "todo_permissions d' = todo_permissions d1"
      by (rule upsert_permission_again[OF all_r ex])
  qed simp
qed


text \<open>
  In the run \<open>grown_db\<close> the permission rows are the owner rows of user 1 for list 1 and of
  the anonymous caller for list 2. johndoe grants jane the role read on list 1: one row
  for (user 2, list 1) results, with the role read, and the same grant again leaves the
  table as it is. In \<open>shared_db\<close>, where that row exists, johndoe grants jane the role
  write: the call returns normally and the same row, with the id 3, now has the role
  write.
\<close>

theorem one_permission_per_user_and_list_witness:
  "map perm_key (todo_permissions grown_db) = [(Some 1, 1), (None, 2)] \<and>
   distinct (map perm_key (todo_permissions grown_db)) \<and>
   (\<exists>p. filter (\<lambda>p. perm_key p = (Some 2, 1))
          (todo_permissions (snd (put_list_user sample_env 1 by_session1 1 2 (Inr ''read'') grown_db)))
        = [p] \<and> p_role p = Read) \<and>
   todo_permissions
     (snd (put_list_user sample_env 2 by_session1 1 2 (Inr ''read'')
        (snd (put_list_user sample_env 1 by_session1 1 2 (Inr ''read'') grown_db)))) =
     todo_permissions (snd (put_list_user sample_env 1 by_session1 1 2 (Inr ''read'') grown_db)) \<and>
   map (\<lambda>p. (p_id p, perm_key p, p_role p)) (todo_permissions shared_db) =
     [(1, (Some 1, 1), Owner), (2, (None, 2), Owner), (3, (Some 2, 1), Read)] \<and>
   fst (put_list_user sample_env 2 by_session1 1 2 (Inr ''write'') shared_db) = Inr Undefined \<and>
   map (\<lambda>p. (p_id p, perm_key p, p_role p))
       (todo_permissions (snd (put_list_user sample_env 2 by_session1 1 2 (Inr ''write'') shared_db))) =
     [(1, (Some 1, 1), Owner), (2, (None, 2), Owner), (3, (Some 2, 1), Write)]"
proof -
  note at = one_permission_per_user_and_list[OF reachable_grown_db]
  have keys: "map perm_key (todo_permissions grown_db) = [(Some 1, 1), (None, 2)]"
    by code_simp
  have "fst (put_list_user sample_env 1 by_session1 1 2 (Inr ''read'') grown_db) = Inr Undefined"
    by code_simp
  then obtain d1 where
    run: "put_list_user sample_env 1 by_session1 1 2 (Inr ''read'') grown_db = (Inr Undefined, d1)"
    by (cases "put_list_user sample_env 1 by_session1 1 2 (Inr ''read'') grown_db") simp
  note granted = at[THEN conjunct2, THEN conjunct2, THEN conjunct1, rule_format, OF run]
  have rd: "role_of ''read'' = Some Read"
    by (simp add: role_of_def)
  from granted[THEN conjunct1] rd have one:
    "\<exists>p. filter (\<lambda>p. perm_key p = (Some 2, 1)) (todo_permissions d1) = [p] \<and> p_role p = Read"
    by auto
  note again = granted[THEN conjunct2, THEN conjunct2, rule_format, of 2 by_session1]
  have first: "map perm_key (todo_permissions grown_db) = [(Some 1, 1), (None, 2)] \<and>
      distinct (map perm_key (todo_permissions grown_db)) \<and>
      (\<exists>p. filter (\<lambda>p. perm_key p = (Some 2, 1))
          (todo_permissions (snd (put_list_user sample_env 1 by_session1 1 2 (Inr ''read'') grown_db)))
        = [p] \<and> p_role p = Read) \<and>
      todo_permissions
        (snd (put_list_user sample_env 2 by_session1 1 2 (Inr ''read'')
           (snd (put_list_user sample_env 1 by_session1 1 2 (Inr ''read'') grown_db)))) =
        todo_permissions (snd (put_list_user sample_env 1 by_session1 1 2 (Inr ''read'') grown_db))"
    unfolding run snd_conv using keys at[THEN conjunct1] one again by simp
  let ?who = "\<lparr>a_userId = Some 1, a_sessionId = Some 1\<rparr>"
  let ?row = "\<lparr>p_id = 3, p_userId = Some 2, p_listId = 1, p_role = Read\<rparr>"
  have perms: "todo_permissions shared_db =
      [\<lparr>p_id = 1, p_userId = Some 1, p_listId = 1, p_role = Owner\<rparr>,
       \<lparr>p_id = 2, p_userId = None, p_listId = 2, p_role = Owner\<rparr>, ?row]"
    by code_simp
  have auth: "authenticate sample_env 2 by_session1 shared_db Required = Inr ?who"
    by code_simp
  have held: "checkPermissions shared_db (a_userId ?who) 1 Owner = Inr Owner"
    by code_simp
  have wr: "role_of ''write'' = Some Write"
    by (simp add: role_of_def)
  have row: "?row \<in> set (todo_permissions shared_db)" "perm_key ?row = (Some 2, 1)"
    by (simp_all add: perms perm_key_def)
  note replaced = one_permission_per_user_and_list[OF reachable_shared_db, THEN conjunct2,
      THEN conjunct2, THEN conjunct2, THEN conjunct1, rule_format, OF auth held wr row]
  have second: "map (\<lambda>p. (p_id p, perm_key p, p_role p)) (todo_permissions shared_db) =
        [(1, (Some 1, 1), Owner), (2, (None, 2), Owner), (3, (Some 2, 1), Read)] \<and>
      fst (put_list_user sample_env 2 by_session1 1 2 (Inr ''write'') shared_db) = Inr Undefined \<and>
      map (\<lambda>p. (p_id p, perm_key p, p_role p))
        (todo_permissions (snd (put_list_user sample_env 2 by_session1 1 2 (Inr ''write'') shared_db))) =
        [(1, (Some 1, 1), Owner), (2, (None, 2), Owner), (3, (Some 2, 1), Write)]"
    unfolding replaced by (simp add: perms perm_key_def)
  from first second show ?thesis
    by (intro conjI) (elim conjE, assumption)+
qed

end
